theory Spec2Isabelle
  imports Complex_Main
begin

section \<open>Data model of the analysis library\<close>

text \<open>
  The \<open>Evaluation\<close> interface of the engine adapter. Optional fields are options.
  The numeric fields are JavaScript numbers that the adapter only ever fills with
  \<open>parseInt\<close> of a digit string, so they are modelled as unbounded integers
  (\<open>depth\<close> and \<open>nodes\<close> come from unsigned digit strings).
\<close>

record Evaluation =
  cp :: "int option"
  mate :: "int option"
  depth :: nat
  nodes :: "nat option"
  bestMove :: "string option"
  pv :: "string option"

text \<open>The ten labels of \<open>MoveClassification\<close>; the type itself also admits \<open>null\<close>.\<close>

datatype MoveLabel =
  Brilliant | Great | Best | Excellent | Good | Inaccuracy | Mistake | Blunder | Book | Forced

type_synonym MoveClassification = "MoveLabel option"

datatype Color = White | Black

record ParsedMove =
  index :: nat
  ply :: int
  san :: string
  lan :: string
  fenBefore :: string
  fenAfter :: string
  turn :: Color

record Verdict =
  classification :: MoveClassification
  centipawnLoss :: int

subsection \<open>The chess library, as far as the analysis code observes it\<close>

text \<open>
  The analysis code constructs \<open>new Chess(fen)\<close> and calls \<open>board()\<close>, \<open>moves()\<close> and
  \<open>isGameOver()\<close> on it. The library is not part of the analysed code: it is a parameter
  \<open>chess\<close> of every function that uses it, mapping a position encoding to the object
  constructed from it, or to \<open>None\<close> when the constructor throws. \<open>isGameOver\<close> is the
  library's own combination of its three terminal tests.
\<close>

datatype PieceSymbol = Pawn | Knight | Bishop | Rook | Queen | King

record Piece =
  ptype :: PieceSymbol
  color :: Color

record Chess =
  board :: "Piece option list list"
  moves :: "string list"
  isCheck :: bool
  isDraw :: bool

definition isCheckmate :: "Chess \<Rightarrow> bool" where
  "isCheckmate g = (isCheck g \<and> moves g = [])"

definition isStalemate :: "Chess \<Rightarrow> bool" where
  "isStalemate g = (\<not> isCheck g \<and> moves g = [])"

definition isGameOver :: "Chess \<Rightarrow> bool" where
  "isGameOver g = (isCheckmate g \<or> isStalemate g \<or> isDraw g)"

datatype error = InvalidFen

section \<open>Helpers of the classification engine\<close>

fun PIECE_VALUE :: "PieceSymbol \<Rightarrow> int" where
  "PIECE_VALUE Pawn = 1"
| "PIECE_VALUE Knight = 3"
| "PIECE_VALUE Bishop = 3"
| "PIECE_VALUE Rook = 5"
| "PIECE_VALUE Queen = 9"
| "PIECE_VALUE King = 0"

text \<open>
  The two nested loops of \<open>materialByColor\<close>: the accumulator is the pair
  \<open>(white, black)\<close>, an empty square is skipped.
\<close>

fun addPiece :: "int \<times> int \<Rightarrow> Piece option \<Rightarrow> int \<times> int" where
  "addPiece (white, black) None = (white, black)"
| "addPiece (white, black) (Some piece) =
     (if color piece = White then (white + PIECE_VALUE (ptype piece), black)
      else (white, black + PIECE_VALUE (ptype piece)))"

definition materialOfBoard :: "Piece option list list \<Rightarrow> int \<times> int" where
  "materialOfBoard b = foldl (\<lambda>acc row. foldl addPiece acc row) (0, 0) b"

definition materialByColor :: "(string \<Rightarrow> Chess option) \<Rightarrow> string \<Rightarrow> error + (int \<times> int)" where
  "materialByColor chess fen =
     (case chess fen of
        None \<Rightarrow> Inl InvalidFen
      | Some g \<Rightarrow> Inr (materialOfBoard (board g)))"

definition evalToCpFromTurnPerspective :: "Evaluation \<Rightarrow> int" where
  "evalToCpFromTurnPerspective evalData =
     (case mate evalData of
        Some m \<Rightarrow> (let sign = sgn m; distance = max 1 \<bar>m\<bar> in sign * (10000 - distance * 10))
      | None \<Rightarrow> (case cp evalData of Some c \<Rightarrow> c | None \<Rightarrow> 0))"

text \<open>
  \<open>winChance\<close> is floating-point code; it is modelled by the real function it
  approximates.
\<close>

definition winChance :: "real \<Rightarrow> real" where
  "winChance c = 50 + 50 * (2 / (1 + exp (- (368208 / 100000000) * c)) - 1)"

definition endsWith :: "string \<Rightarrow> string \<Rightarrow> bool" where
  "endsWith s t = (length t \<le> length s \<and> drop (length s - length t) s = t)"

section \<open>Move classification\<close>

text \<open>The chain of \<open>if\<close>/\<open>else if\<close> on the loss thresholds, with its two dampeners.\<close>

definition thresholdLadder :: "int \<Rightarrow> int \<Rightarrow> real \<Rightarrow> bool \<Rightarrow> MoveLabel" where
  "thresholdLadder scoreBefore cpl wcLoss isBest =
     (if cpl > 250 \<or> wcLoss > 30 then
        (if scoreBefore < - 500 then
           (if cpl \<le> 100 then Good else if cpl \<le> 250 then Mistake else Blunder)
         else Blunder)
      else if cpl > 100 \<or> wcLoss > 20 then
        (if scoreBefore < - 400 \<and> cpl \<le> 150 then Inaccuracy else Mistake)
      else if cpl > 30 \<or> wcLoss > 10 then Inaccuracy
      else if cpl > 10 then Good
      else if cpl > 0 then Excellent
      else (if isBest then Best else Excellent))"

text \<open>
  The net material the mover gives up: his own loss minus the opponent's loss, between
  the two \<open>(white, black)\<close> totals.
\<close>

definition netSacrifice :: "Color \<Rightarrow> int \<times> int \<Rightarrow> int \<times> int \<Rightarrow> int" where
  "netSacrifice moverColor beforeMaterial afterMaterial =
     (let moverBefore = (if moverColor = White then fst beforeMaterial else snd beforeMaterial);
          moverAfter = (if moverColor = White then fst afterMaterial else snd afterMaterial);
          opponentBefore = (if moverColor = White then snd beforeMaterial else fst beforeMaterial);
          opponentAfter = (if moverColor = White then snd afterMaterial else fst afterMaterial);
          materialSacrificed = moverBefore - moverAfter;
          materialCaptured = opponentBefore - opponentAfter
      in materialSacrificed - materialCaptured)"

definition isBrilliant :: "bool \<Rightarrow> int \<Rightarrow> int \<Rightarrow> int \<Rightarrow> int \<Rightarrow> bool" where
  "isBrilliant isBest net cpl scoreBefore scoreAfter =
     (isBest \<and> net \<ge> 2 \<and> cpl \<le> 15 \<and> scoreBefore < 600 \<and> scoreBefore > - 300 \<and> scoreAfter > - 50)"

definition greatOverride ::
  "MoveLabel \<Rightarrow> bool \<Rightarrow> int \<Rightarrow> Evaluation option \<Rightarrow> int \<Rightarrow> int \<Rightarrow> MoveLabel" where
  "greatOverride c isBest cpl secondBestEval scoreBefore scoreAfter =
     (case secondBestEval of
        Some sb \<Rightarrow>
          (if c \<noteq> Brilliant \<and> isBest \<and> cpl \<le> 10 then
             (let secondBestScore = - evalToCpFromTurnPerspective sb;
                  delta = secondBestScore - scoreAfter
              in if delta \<ge> 150 \<and> scoreBefore > - 200 then Great else c)
           else c)
      | None \<Rightarrow> c)"

text \<open>
  The two early returns for a move that ends the game: the SAN ends with \<open>#\<close>, or the
  position after the move is accepted by the library and is over. A position the library
  rejects is skipped by the \<open>catch\<close>.
\<close>

definition endsGame :: "(string \<Rightarrow> Chess option) \<Rightarrow> ParsedMove \<Rightarrow> bool" where
  "endsGame chess move =
     (endsWith (san move) ''#'' \<or>
      (case chess (fenAfter move) of None \<Rightarrow> False | Some after \<Rightarrow> isGameOver after))"

text \<open>
  \<open>classifyMove\<close>. The scores are integers, so \<open>Math.round\<close> at the last return is the
  identity. \<open>secondBestEval\<close> is an object, \<open>null\<close> or absent; \<open>isOnlyLegalMove\<close> is a
  boolean or absent, and absent counts as false. The unguarded \<open>materialByColor\<close> calls
  throw when the library rejects a position: that is the \<open>Inl\<close> result.
\<close>

definition classifyMove ::
  "(string \<Rightarrow> Chess option) \<Rightarrow> ParsedMove \<Rightarrow> Evaluation \<Rightarrow> Evaluation \<Rightarrow> string \<Rightarrow> int \<Rightarrow>
   Evaluation option \<Rightarrow> bool \<Rightarrow> error + Verdict" where
  "classifyMove chess move evalBefore evalAfter bestMv openingPlyLimit secondBestEval isOnlyLegalMove =
     (if endsGame chess move then Inr \<lparr>classification = Some Best, centipawnLoss = 0\<rparr>
      else
        let scoreBefore = evalToCpFromTurnPerspective evalBefore;
            scoreAfter = - evalToCpFromTurnPerspective evalAfter;
            cpl = max 0 (scoreBefore - scoreAfter);
            isBest = (lan move = bestMv)
        in
          if isOnlyLegalMove then Inr \<lparr>classification = Some Forced, centipawnLoss = 0\<rparr>
          else if ply move \<le> openingPlyLimit \<and> cpl \<le> 25 then
            Inr \<lparr>classification = Some Book, centipawnLoss = cpl\<rparr>
          else
            let wcBefore = winChance (real_of_int scoreBefore);
                wcAfter = winChance (real_of_int scoreAfter);
                wcLoss = wcBefore - wcAfter;
                c1 = thresholdLadder scoreBefore cpl wcLoss isBest;
                c2 = (if isBest \<and> cpl \<le> 10 then Best else c1)
            in
              case materialByColor chess (fenBefore move) of
                Inl e \<Rightarrow> Inl e
              | Inr beforeMaterial \<Rightarrow>
                  (case materialByColor chess (fenAfter move) of
                     Inl e \<Rightarrow> Inl e
                   | Inr afterMaterial \<Rightarrow>
                       let net = netSacrifice (turn move) beforeMaterial afterMaterial;
                           c3 = (if isBrilliant isBest net cpl scoreBefore scoreAfter
                                 then Brilliant else c2);
                           c4 = greatOverride c3 isBest cpl secondBestEval scoreBefore scoreAfter
                       in Inr \<lparr>classification = Some c4, centipawnLoss = cpl\<rparr>))"

text \<open>
  The orchestrator's computation of the flag it passes as \<open>isOnlyLegalMove\<close>: false when
  the library rejects the position.
\<close>

definition onlyLegalMove :: "(string \<Rightarrow> Chess option) \<Rightarrow> string \<Rightarrow> bool" where
  "onlyLegalMove chess fen =
     (case chess fen of None \<Rightarrow> False | Some g \<Rightarrow> length (moves g) \<le> 1)"

section \<open>Strings and the regular expressions of the info-line parser\<close>

text \<open>
  Engine lines are ASCII strings. \<open>isSpace\<close>, \<open>isDigit\<close> and \<open>isWordChar\<close> are the
  classes \<open>\s\<close>, \<open>\d\<close> and \<open>\w\<close> on ASCII; \<open>parseNat\<close> and \<open>parseInt\<close> are
  \<open>parseInt(_, 10)\<close> on the digit strings that the expressions capture.
\<close>

definition startsWith :: "string \<Rightarrow> string \<Rightarrow> bool" where
  "startsWith s p = (take (length p) s = p)"

definition isDigit :: "char \<Rightarrow> bool" where
  "isDigit c = (c \<in> set ''0123456789'')"

definition isSpace :: "char \<Rightarrow> bool" where
  "isSpace c = (c \<in> set [CHR '' '', CHR 0x09, CHR 0x0A, CHR 0x0B, CHR 0x0C, CHR 0x0D])"

definition isWordChar :: "char \<Rightarrow> bool" where
  "isWordChar c = (c \<in> set ''abcdefghijklmnopqrstuvwxyzABCDEFGHIJKLMNOPQRSTUVWXYZ0123456789_'')"

definition isLineTerminator :: "char \<Rightarrow> bool" where
  "isLineTerminator c = (c = CHR 0x0A \<or> c = CHR 0x0D)"

definition digitValue :: "char \<Rightarrow> nat" where
  "digitValue c = of_char c - 48"

definition parseNat :: "string \<Rightarrow> nat" where
  "parseNat ds = foldl (\<lambda>n c. 10 * n + digitValue c) 0 ds"

definition parseInt :: "string \<Rightarrow> int" where
  "parseInt s = (case s of
                   [] \<Rightarrow> 0
                 | c # r \<Rightarrow> if c = CHR ''-'' then - int (parseNat r) else int (parseNat s))"

definition stripPrefix :: "string \<Rightarrow> string \<Rightarrow> string option" where
  "stripPrefix p s = (if startsWith s p then Some (drop (length p) s) else None)"

definition skipSpaces1 :: "string \<Rightarrow> string option" where
  "skipSpaces1 s = (case s of
                      [] \<Rightarrow> None
                    | c # r \<Rightarrow> if isSpace c then Some (dropWhile isSpace r) else None)"

definition takeDigits1 :: "string \<Rightarrow> string option" where
  "takeDigits1 s = (let ds = takeWhile isDigit s in if ds = [] then None else Some ds)"

definition takeInt1 :: "string \<Rightarrow> string option" where
  "takeInt1 s = (case s of
                   [] \<Rightarrow> None
                 | c # r \<Rightarrow> if c = CHR ''-'' then map_option ((#) c) (takeDigits1 r)
                            else takeDigits1 s)"

text \<open>
  \<open>search m False line\<close> is \<open>exec\<close> of an expression that starts with \<open>\b\<close>: it tries
  the matcher \<open>m\<close> at every position where a word boundary lies, from the left, and
  returns the capture of the first match. The flag says whether the character before the
  position is a word character.
\<close>

fun search :: "(string \<Rightarrow> 'a option) \<Rightarrow> bool \<Rightarrow> string \<Rightarrow> 'a option" where
  "search m prevWord [] = None"
| "search m prevWord (c # cs) =
     (case (if prevWord \<noteq> isWordChar c then m (c # cs) else None) of
        Some r \<Rightarrow> Some r
      | None \<Rightarrow> search m (isWordChar c) cs)"

text \<open>
  The matchers: \<open>kw\s+(\d+)\<close> for depth, nodes and multipv, \<open>score\s+kind\s+(-?\d+)\<close>
  for the two scores, \<open>(upperbound|lowerbound)\b\<close>, and \<open>pv\s+(.+)$\<close>, where \<open>.\<close>
  excludes line terminators and \<open>\s+\<close> gives back one space when nothing else is left
  for \<open>.+\<close>.
\<close>

definition keywordNumber :: "string \<Rightarrow> string \<Rightarrow> string option" where
  "keywordNumber kw s = Option.bind (Option.bind (stripPrefix kw s) skipSpaces1) takeDigits1"

definition scoreNumber :: "string \<Rightarrow> string \<Rightarrow> string option" where
  "scoreNumber kind s =
     Option.bind (Option.bind (Option.bind (Option.bind (stripPrefix ''score'' s) skipSpaces1)
       (stripPrefix kind)) skipSpaces1) takeInt1"

definition wordEnd :: "string \<Rightarrow> bool" where
  "wordEnd r = (case r of [] \<Rightarrow> True | c # _ \<Rightarrow> \<not> isWordChar c)"

definition boundWord :: "string \<Rightarrow> unit option" where
  "boundWord s =
     (if (case stripPrefix ''upperbound'' s of Some r \<Rightarrow> wordEnd r | None \<Rightarrow> False) then Some ()
      else if (case stripPrefix ''lowerbound'' s of Some r \<Rightarrow> wordEnd r | None \<Rightarrow> False) then Some ()
      else None)"

definition hasBound :: "string \<Rightarrow> bool" where
  "hasBound line = (search boundWord False line \<noteq> None)"

definition pvCapture :: "string \<Rightarrow> string option" where
  "pvCapture s =
     (case stripPrefix ''pv'' s of
        None \<Rightarrow> None
      | Some r \<Rightarrow>
          (let n = length (takeWhile isSpace r); rest = drop n r
           in if n = 0 then None
              else if rest \<noteq> [] then (if list_ex isLineTerminator rest then None else Some rest)
              else if 2 \<le> n \<and> \<not> isLineTerminator (last r) then Some [last r]
              else None))"

definition trim :: "string \<Rightarrow> string" where
  "trim s = rev (dropWhile isSpace (rev (dropWhile isSpace s)))"

definition isLanMove :: "string \<Rightarrow> bool" where
  "isLanMove t =
     (case t of
        [a, b, c, d] \<Rightarrow> a \<in> set ''abcdefgh'' \<and> b \<in> set ''12345678'' \<and>
                        c \<in> set ''abcdefgh'' \<and> d \<in> set ''12345678''
      | [a, b, c, d, e] \<Rightarrow> a \<in> set ''abcdefgh'' \<and> b \<in> set ''12345678'' \<and>
                        c \<in> set ''abcdefgh'' \<and> d \<in> set ''12345678'' \<and> e \<in> set ''qrbn''
      | _ \<Rightarrow> False)"

definition parseInfoLine :: "string \<Rightarrow> (Evaluation \<times> nat) option" where
  "parseInfoLine line =
     (case search (keywordNumber ''depth'') False line of
        None \<Rightarrow> None
      | Some depthMatch \<Rightarrow>
          if hasBound line then None
          else
            let cpMatch = search (scoreNumber ''cp'') False line;
                mateMatch = search (scoreNumber ''mate'') False line;
                nodesMatch = search (keywordNumber ''nodes'') False line;
                pvMatch = search pvCapture False line;
                multipvMatch = search (keywordNumber ''multipv'') False line;
                firstMove = (case pvMatch of
                               None \<Rightarrow> None
                             | Some t \<Rightarrow> (let m = takeWhile (\<lambda>c. \<not> isSpace c) (trim t)
                                          in if m \<noteq> [] \<and> isLanMove m then Some m else None));
                evaluation = \<lparr>cp = map_option parseInt cpMatch,
                              mate = map_option parseInt mateMatch,
                              depth = parseNat depthMatch,
                              nodes = map_option parseNat nodesMatch,
                              bestMove = firstMove,
                              pv = map_option trim pvMatch\<rparr>;
                pvIndex = (case multipvMatch of Some d \<Rightarrow> parseNat d | None \<Rightarrow> 1)
            in Some (evaluation, pvIndex))"

section \<open>The engine adapter\<close>

text \<open>
  The adapter object is a record. A promise is named by a number taken from \<open>nextId\<close>,
  and so is a timer; \<open>timers\<close> holds the armed timers with what their callback closes
  over (the promise and the number of lines). What the adapter does to the outside is
  appended to \<open>effects\<close>: messages posted to the worker and promises settled. The
  duration of a timer is not modelled: an armed timer may fire at any moment.
  \<open>waiting\<close> holds the calls suspended at \<open>await this.readyPromise\<close>, in the order of
  the calls. Every call suspends there, also when the adapter is ready: its continuation
  runs later, after whatever the caller does in the same turn.
\<close>

record AnalyzeOptions =
  optDepth :: "nat option"
  optMoveTimeMs :: "nat option"
  optTimeoutMs :: "nat option"
  optMultiPv :: "nat option"

datatype failure = Unavailable | NotReady | Cancelled | TimedOut | WorkerError | Terminated

datatype effect =
  PostMessage string
| Resolve nat "Evaluation list"
| Reject nat failure

record PendingAnalysis =
  promise :: nat
  results :: "nat \<rightharpoonup> Evaluation"
  multiPv :: nat
  timeoutId :: nat

record StockfishEngine =
  worker :: bool
  ready :: bool
  pending :: "PendingAnalysis option"
  waiting :: "(nat \<times> string \<times> AnalyzeOptions) list"
  timers :: "nat \<rightharpoonup> nat \<times> nat"
  nextId :: nat
  effects :: "effect list"

definition emit :: "effect \<Rightarrow> StockfishEngine \<Rightarrow> StockfishEngine" where
  "emit e eng = eng\<lparr>effects := effects eng @ [e]\<rparr>"

definition postMessage :: "string \<Rightarrow> StockfishEngine \<Rightarrow> StockfishEngine" where
  "postMessage msg eng = (if worker eng then emit (PostMessage msg) eng else eng)"

definition clearTimeout :: "nat \<Rightarrow> StockfishEngine \<Rightarrow> StockfishEngine" where
  "clearTimeout t eng = eng\<lparr>timers := (timers eng)(t := None)\<rparr>"

definition newEngine :: "bool \<Rightarrow> StockfishEngine" where
  "newEngine hasWindow =
     (let eng = \<lparr>worker = False, ready = False, pending = None, waiting = [],
                 timers = Map.empty, nextId = 0, effects = []\<rparr>
      in if \<not> hasWindow then eng else postMessage ''uci'' (eng\<lparr>worker := True\<rparr>))"

definition onWorkerError :: "StockfishEngine \<Rightarrow> StockfishEngine" where
  "onWorkerError eng =
     (case pending eng of
        None \<Rightarrow> eng
      | Some p \<Rightarrow> (emit (Reject (promise p) WorkerError) (clearTimeout (timeoutId p) eng))
                    \<lparr>pending := None\<rparr>)"

definition stop :: "StockfishEngine \<Rightarrow> StockfishEngine" where
  "stop eng = postMessage ''stop'' eng"

definition quit :: "StockfishEngine \<Rightarrow> StockfishEngine" where
  "quit eng =
     (let eng1 = (case pending eng of
                    None \<Rightarrow> eng
                  | Some p \<Rightarrow> (emit (Reject (promise p) Terminated) (clearTimeout (timeoutId p) eng))
                                \<lparr>pending := None\<rparr>)
      in (postMessage ''quit'' eng1)\<lparr>worker := False\<rparr>)"

definition digitChar :: "nat \<Rightarrow> char" where
  "digitChar d = ''0123456789'' ! d"

fun showNat :: "nat \<Rightarrow> string" where
  "showNat n = (if n < 10 then [digitChar n] else showNat (n div 10) @ [digitChar (n mod 10)])"

declare showNat.simps [simp del]

definition noEvaluation :: Evaluation where
  "noEvaluation = \<lparr>cp = None, mate = None, depth = 0, nodes = None, bestMove = None, pv = None\<rparr>"

definition lineOrDefault :: "(nat \<rightharpoonup> Evaluation) \<Rightarrow> nat \<Rightarrow> Evaluation" where
  "lineOrDefault rs i = (case rs i of Some ev \<Rightarrow> ev | None \<Rightarrow> noEvaluation)"

definition assemble :: "(nat \<rightharpoonup> Evaluation) \<Rightarrow> nat \<Rightarrow> Evaluation list" where
  "assemble rs n = map (lineOrDefault rs) [1 ..< Suc n]"

definition hasScore :: "Evaluation \<Rightarrow> bool" where
  "hasScore ev = (cp ev \<noteq> None \<or> mate ev \<noteq> None)"

definition onTimeout :: "nat \<Rightarrow> StockfishEngine \<Rightarrow> StockfishEngine" where
  "onTimeout t eng =
     (case timers eng t of
        None \<Rightarrow> eng
      | Some (caller, n) \<Rightarrow>
          (let eng1 = eng\<lparr>timers := (timers eng)(t := None)\<rparr>
           in case pending eng1 of
                None \<Rightarrow> eng1
              | Some p \<Rightarrow>
                  (let eng2 = stop eng1;
                       rs = assemble (results p) n;
                       eng3 = eng2\<lparr>pending := None\<rparr>
                   in case rs of
                        [] \<Rightarrow> emit (Reject caller TimedOut) eng3
                      | r # _ \<Rightarrow> if hasScore r then emit (Resolve caller rs) eng3
                                 else emit (Reject caller TimedOut) eng3)))"

definition goCommand :: "nat option \<Rightarrow> nat \<Rightarrow> string" where
  "goCommand moveTimeMs d =
     (case moveTimeMs of
        None \<Rightarrow> ''go depth '' @ showNat d
      | Some ms \<Rightarrow> if ms \<noteq> 0 then ''go movetime '' @ showNat ms else ''go depth '' @ showNat d)"

definition startAnalysis :: "StockfishEngine \<Rightarrow> nat \<times> string \<times> AnalyzeOptions \<Rightarrow> StockfishEngine" where
  "startAnalysis eng req =
     (case req of (caller, fen, options) \<Rightarrow>
        let d = (case optDepth options of Some v \<Rightarrow> v | None \<Rightarrow> 18);
            n = (case optMultiPv options of Some v \<Rightarrow> v | None \<Rightarrow> 1)
        in if \<not> ready eng then emit (Reject caller NotReady) eng
           else
             let eng1 = stop eng;
                 eng2 = (case pending eng1 of
                           None \<Rightarrow> eng1
                         | Some p \<Rightarrow> (emit (Reject (promise p) Cancelled)
                                         (clearTimeout (timeoutId p) eng1))\<lparr>pending := None\<rparr>);
                 t = nextId eng2;
                 eng3 = eng2\<lparr>timers := (timers eng2)(t \<mapsto> (caller, n)), nextId := Suc t\<rparr>;
                 eng4 = eng3\<lparr>pending := Some \<lparr>promise = caller, results = Map.empty,
                                                 multiPv = n, timeoutId = t\<rparr>\<rparr>
             in postMessage (goCommand (optMoveTimeMs options) d)
                  (postMessage (''position fen '' @ fen)
                     (postMessage (''setoption name MultiPV value '' @ showNat n) eng4)))"

text \<open>
  \<open>analyzePosition\<close> up to its \<open>await\<close>: without a worker it throws, which rejects the
  promise it returns; otherwise the call is suspended. \<open>startAnalysis\<close> above is the rest
  of the function, and \<open>resume\<close> runs it for the first suspended call once the readiness
  promise is resolved, which is the case exactly when \<open>ready\<close> is set.
\<close>

definition analyzePosition ::
  "StockfishEngine \<Rightarrow> string \<Rightarrow> AnalyzeOptions \<Rightarrow> nat \<times> StockfishEngine" where
  "analyzePosition eng fen options =
     (let caller = nextId eng;
          eng1 = eng\<lparr>nextId := Suc caller\<rparr>
      in if \<not> worker eng1 then (caller, emit (Reject caller Unavailable) eng1)
         else (caller, eng1\<lparr>waiting := waiting eng1 @ [(caller, fen, options)]\<rparr>))"

definition resume :: "StockfishEngine \<Rightarrow> StockfishEngine" where
  "resume eng =
     (case waiting eng of
        [] \<Rightarrow> eng
      | req # rest \<Rightarrow> if ready eng then startAnalysis (eng\<lparr>waiting := rest\<rparr>) req else eng)"

definition splitOn :: "char \<Rightarrow> string \<Rightarrow> string list" where
  "splitOn sep s = foldr (\<lambda>c acc. if c = sep then [] # acc else (c # hd acc) # tl acc) s [[]]"

definition withBestMove :: "string option \<Rightarrow> nat \<Rightarrow> Evaluation \<Rightarrow> Evaluation" where
  "withBestMove mv i ev =
     (case mv of
        Some m \<Rightarrow>
          if i = 1 \<and> m \<noteq> [] \<and> m \<noteq> ''(none)'' then
            (case bestMove ev of
               Some b \<Rightarrow> if b \<noteq> [] then ev else ev\<lparr>bestMove := Some m\<rparr>
             | None \<Rightarrow> ev\<lparr>bestMove := Some m\<rparr>)
          else ev
      | None \<Rightarrow> ev)"

definition handleMessage :: "StockfishEngine \<Rightarrow> string \<Rightarrow> StockfishEngine" where
  "handleMessage eng line =
     (if line = ''uciok'' then
        postMessage ''isready'' (postMessage ''setoption name Hash value 32'' eng)
      else if line = ''readyok'' then eng\<lparr>ready := True\<rparr>
      else if startsWith line ''info '' \<and> pending eng \<noteq> None then
        (case pending eng of
           None \<Rightarrow> eng
         | Some p \<Rightarrow>
             (case parseInfoLine line of
                None \<Rightarrow> eng
              | Some (ev, pvIdx) \<Rightarrow>
                  (case results p pvIdx of
                     None \<Rightarrow> eng\<lparr>pending := Some (p\<lparr>results := (results p)(pvIdx \<mapsto> ev)\<rparr>)\<rparr>
                   | Some existing \<Rightarrow>
                       if depth ev \<ge> depth existing
                       then eng\<lparr>pending := Some (p\<lparr>results := (results p)(pvIdx \<mapsto> ev)\<rparr>)\<rparr>
                       else eng)))
      else if startsWith line ''bestmove'' \<and> pending eng \<noteq> None then
        (case pending eng of
           None \<Rightarrow> eng
         | Some p \<Rightarrow>
             (let ws = splitOn CHR '' '' line;
                  mv = (if length ws > 1 then Some (ws ! 1) else None);
                  rs = map (\<lambda>i. withBestMove mv i (lineOrDefault (results p) i)) [1 ..< Suc (multiPv p)]
              in (emit (Resolve (promise p) rs) (clearTimeout (timeoutId p) eng))\<lparr>pending := None\<rparr>))
      else eng)"

text \<open>
  The update of the retained evaluations by one parsed line, as \<open>handleMessage\<close>
  performs it.
\<close>

definition retain :: "PendingAnalysis \<Rightarrow> (Evaluation \<times> nat) option \<Rightarrow> PendingAnalysis" where
  "retain p parsed =
     (case parsed of
        None \<Rightarrow> p
      | Some (ev, pvIdx) \<Rightarrow>
          (case results p pvIdx of
             None \<Rightarrow> p\<lparr>results := (results p)(pvIdx \<mapsto> ev)\<rparr>
           | Some existing \<Rightarrow>
               if depth ev \<ge> depth existing then p\<lparr>results := (results p)(pvIdx \<mapsto> ev)\<rparr> else p))"

text \<open>
  The states the adapter can be in: those reached from a new adapter by its handlers, its
  methods and the continuations of suspended calls, in any order.
\<close>

inductive reachable :: "StockfishEngine \<Rightarrow> bool" where
  r_new: "reachable (newEngine hasWindow)"
| r_message: "reachable eng \<Longrightarrow> reachable (handleMessage eng line)"
| r_error: "reachable eng \<Longrightarrow> reachable (onWorkerError eng)"
| r_analyze: "reachable eng \<Longrightarrow> reachable (snd (analyzePosition eng fen options))"
| r_resume: "reachable eng \<Longrightarrow> reachable (resume eng)"
| r_timeout: "reachable eng \<Longrightarrow> reachable (onTimeout t eng)"
| r_stop: "reachable eng \<Longrightarrow> reachable (stop eng)"
| r_quit: "reachable eng \<Longrightarrow> reachable (quit eng)"

text \<open>
  The invariant of the reachable states: the only armed timer is the one of the pending
  request, a request is pending only once the adapter is ready, the suspended calls have
  promises of their own, and every name in use is below \<open>nextId\<close>. A pending request
  does not imply a worker: \<open>quit\<close> between a call and its continuation leaves none.
\<close>

definition engine_inv :: "StockfishEngine \<Rightarrow> bool" where
  "engine_inv eng =
     ((case pending eng of
         None \<Rightarrow> timers eng = Map.empty
       | Some p \<Rightarrow> timers eng = [timeoutId p \<mapsto> (promise p, multiPv p)] \<and>
                   ready eng \<and> promise p < nextId eng \<and> timeoutId p < nextId eng \<and>
                   promise p \<notin> fst ` set (waiting eng)) \<and>
      (\<forall>r \<in> set (waiting eng). fst r < nextId eng) \<and>
      distinct (map fst (waiting eng)))"

section \<open>Example inputs\<close>

text \<open>
  Concrete positions and moves on which the theorems below are instantiated.
  \<open>exampleChess\<close> stands for the chess library on eight positions (board, legal moves
  in SAN, check and draw status of each) and rejects every other string.
\<close>

definition evalCp :: "int \<Rightarrow> Evaluation" where
  "evalCp c = \<lparr>cp = Some c, mate = None, depth = 18, nodes = None, bestMove = None, pv = None\<rparr>"

definition evalMate :: "int \<Rightarrow> Evaluation" where
  "evalMate m = \<lparr>cp = None, mate = Some m, depth = 18, nodes = None, bestMove = None, pv = None\<rparr>"

definition emptyRank :: "Piece option list" where
  "emptyRank = [None, None, None, None, None, None, None, None]"

definition pc :: "PieceSymbol \<Rightarrow> Color \<Rightarrow> Piece option" where
  "pc t c = Some \<lparr>ptype = t, color = c\<rparr>"

definition fenWithBishop :: string where
  "fenWithBishop = ''4k3/7p/8/8/8/3B4/8/4K3 w - - 0 30''"

definition fenBishopG6 :: string where
  "fenBishopG6 = ''4k3/7p/6B1/8/8/8/8/4K3 b - - 1 30''"

definition fenTruncated :: string where
  "fenTruncated = ''4k3/7p/6B1/8/8/8/8 b - - 1 30''"

definition fenOneReply :: string where
  "fenOneReply = ''7k/8/8/8/8/8/5PP1/r5K1 w - - 0 40''"

definition fenAfterReply :: string where
  "fenAfterReply = ''7k/8/8/8/8/8/5PPK/r7 b - - 1 40''"

definition fenBeforeStalemate :: string where
  "fenBeforeStalemate = ''7k/8/6KP/8/8/8/8/8 w - - 0 60''"

definition fenStalemate :: string where
  "fenStalemate = ''7k/7P/6K1/8/8/8/8/8 b - - 0 60''"

definition fenBeforeMate :: string where
  "fenBeforeMate = ''6k1/5ppp/8/8/8/8/8/R5K1 w - - 0 30''"

definition fenMate :: string where
  "fenMate = ''R5k1/5ppp/8/8/8/8/8/6K1 b - - 1 30''"

definition boardWithBishop :: "Piece option list list" where
  "boardWithBishop =
     [[None, None, None, None, pc King Black, None, None, None],
      [None, None, None, None, None, None, None, pc Pawn Black],
      emptyRank, emptyRank, emptyRank,
      [None, None, None, pc Bishop White, None, None, None, None],
      emptyRank,
      [None, None, None, None, pc King White, None, None, None]]"

definition boardBishopG6 :: "Piece option list list" where
  "boardBishopG6 =
     [[None, None, None, None, pc King Black, None, None, None],
      [None, None, None, None, None, None, None, pc Pawn Black],
      [None, None, None, None, None, None, pc Bishop White, None],
      emptyRank, emptyRank, emptyRank, emptyRank,
      [None, None, None, None, pc King White, None, None, None]]"

definition boardOneReply :: "Piece option list list" where
  "boardOneReply =
     [[None, None, None, None, None, None, None, pc King Black],
      emptyRank, emptyRank, emptyRank, emptyRank, emptyRank,
      [None, None, None, None, None, pc Pawn White, pc Pawn White, None],
      [pc Rook Black, None, None, None, None, None, pc King White, None]]"

definition boardAfterReply :: "Piece option list list" where
  "boardAfterReply =
     [[None, None, None, None, None, None, None, pc King Black],
      emptyRank, emptyRank, emptyRank, emptyRank, emptyRank,
      [None, None, None, None, None, pc Pawn White, pc Pawn White, pc King White],
      [pc Rook Black, None, None, None, None, None, None, None]]"

definition boardBeforeStalemate :: "Piece option list list" where
  "boardBeforeStalemate =
     [[None, None, None, None, None, None, None, pc King Black],
      emptyRank,
      [None, None, None, None, None, None, pc King White, pc Pawn White],
      emptyRank, emptyRank, emptyRank, emptyRank, emptyRank]"

definition boardStalemate :: "Piece option list list" where
  "boardStalemate =
     [[None, None, None, None, None, None, None, pc King Black],
      [None, None, None, None, None, None, None, pc Pawn White],
      [None, None, None, None, None, None, pc King White, None],
      emptyRank, emptyRank, emptyRank, emptyRank, emptyRank]"

definition boardBeforeMate :: "Piece option list list" where
  "boardBeforeMate =
     [[None, None, None, None, None, None, pc King Black, None],
      [None, None, None, None, None, pc Pawn Black, pc Pawn Black, pc Pawn Black],
      emptyRank, emptyRank, emptyRank, emptyRank, emptyRank,
      [pc Rook White, None, None, None, None, None, pc King White, None]]"

definition boardMate :: "Piece option list list" where
  "boardMate =
     [[pc Rook White, None, None, None, None, None, pc King Black, None],
      [None, None, None, None, None, pc Pawn Black, pc Pawn Black, pc Pawn Black],
      emptyRank, emptyRank, emptyRank, emptyRank, emptyRank,
      [None, None, None, None, None, None, pc King White, None]]"

definition chessWithBishop :: Chess where
  "chessWithBishop =
     \<lparr>board = boardWithBishop,
      moves = [''Kd1'', ''Kd2'', ''Ke2'', ''Kf2'', ''Kf1'', ''Bc4'', ''Bb5+'', ''Ba6'', ''Be4'',
               ''Bf5'', ''Bg6+'', ''Bxh7'', ''Bc2'', ''Bb1'', ''Be2'', ''Bf1''],
      isCheck = False, isDraw = False\<rparr>"

definition chessBishopG6 :: Chess where
  "chessBishopG6 =
     \<lparr>board = boardBishopG6,
      moves = [''Kd8'', ''Kd7'', ''Ke7'', ''Kf8'', ''hxg6''],
      isCheck = True, isDraw = False\<rparr>"

definition exampleChess :: "string \<Rightarrow> Chess option" where
  "exampleChess fen =
     (if fen = fenWithBishop then Some chessWithBishop
      else if fen = fenBishopG6 then Some chessBishopG6
      else if fen = fenOneReply then
        Some \<lparr>board = boardOneReply, moves = [''Kh2''], isCheck = True, isDraw = False\<rparr>
      else if fen = fenAfterReply then
        Some \<lparr>board = boardAfterReply,
              moves = [''Ra2'', ''Ra3'', ''Ra4'', ''Ra5'', ''Ra6'', ''Ra7'', ''Ra8'', ''Rb1'', ''Rc1'',
                       ''Rd1'', ''Re1'', ''Rf1'', ''Rg1'', ''Rh1+'', ''Kg8'', ''Kg7'', ''Kh7''],
              isCheck = False, isDraw = False\<rparr>
      else if fen = fenBeforeStalemate then
        Some \<lparr>board = boardBeforeStalemate,
              moves = [''h7'', ''Kf5'', ''Kg5'', ''Kh5'', ''Kf6'', ''Kf7''],
              isCheck = False, isDraw = False\<rparr>
      else if fen = fenStalemate then
        Some \<lparr>board = boardStalemate, moves = [], isCheck = False, isDraw = True\<rparr>
      else if fen = fenBeforeMate then
        Some \<lparr>board = boardBeforeMate,
              moves = [''Ra2'', ''Ra3'', ''Ra4'', ''Ra5'', ''Ra6'', ''Ra7'', ''Ra8#'', ''Rb1'', ''Rc1'',
                       ''Rd1'', ''Re1'', ''Rf1'', ''Kf1'', ''Kf2'', ''Kg2'', ''Kh1'', ''Kh2''],
              isCheck = False, isDraw = False\<rparr>
      else if fen = fenMate then
        Some \<lparr>board = boardMate, moves = [], isCheck = True, isDraw = False\<rparr>
      else None)"

text \<open>
  \<open>sacrificeMove\<close> is the move Bg6+ of a game: it leaves the bishop to the pawn on h7.
  \<open>brokenMove\<close> is the same move with a resulting encoding of seven ranks, which the
  library rejects.
\<close>

definition sacrificeMove :: ParsedMove where
  "sacrificeMove = \<lparr>index = 58, ply = 59, san = ''Bg6+'', lan = ''d3g6'',
                    fenBefore = fenWithBishop, fenAfter = fenBishopG6, turn = White\<rparr>"

definition brokenMove :: ParsedMove where
  "brokenMove = \<lparr>index = 58, ply = 59, san = ''Bg6+'', lan = ''d3g6'',
                 fenBefore = fenWithBishop, fenAfter = fenTruncated, turn = White\<rparr>"

definition mateMove :: ParsedMove where
  "mateMove = \<lparr>index = 58, ply = 59, san = ''Ra8#'', lan = ''a1a8'',
               fenBefore = fenBeforeMate, fenAfter = fenMate, turn = White\<rparr>"

definition stalemateMove :: ParsedMove where
  "stalemateMove = \<lparr>index = 118, ply = 119, san = ''h7'', lan = ''h6h7'',
                    fenBefore = fenBeforeStalemate, fenAfter = fenStalemate, turn = White\<rparr>"

definition onlyMove :: ParsedMove where
  "onlyMove = \<lparr>index = 78, ply = 79, san = ''Kh2'', lan = ''g1h2'',
               fenBefore = fenOneReply, fenAfter = fenAfterReply, turn = White\<rparr>"

definition exampleOptions :: AnalyzeOptions where
  "exampleOptions = \<lparr>optDepth = Some 18, optMoveTimeMs = None, optTimeoutMs = Some 8000, optMultiPv = Some 1\<rparr>"

definition engineReady :: StockfishEngine where
  "engineReady = handleMessage (handleMessage (newEngine True) ''uciok'') ''readyok''"

definition engineCalled :: StockfishEngine where
  "engineCalled = snd (analyzePosition engineReady fenWithBishop exampleOptions)"

definition enginePending :: StockfishEngine where
  "enginePending = resume engineCalled"

definition engineSecondCall :: StockfishEngine where
  "engineSecondCall = snd (analyzePosition enginePending fenBishopG6 exampleOptions)"

text \<open>
  \<open>engineOrphan\<close>: \<open>quit()\<close> right after a call, in the same turn, and then the
  continuation of that call. A request is pending and its timer is armed, with no worker.
\<close>

definition engineOrphan :: StockfishEngine where
  "engineOrphan = resume (quit engineCalled)"

definition lineDepth12 :: string where
  "lineDepth12 = ''info depth 12 seldepth 17 multipv 1 score cp 35 nodes 48213 nps 803550 pv d3g6 e8e7''"

definition evalDepth12 :: Evaluation where
  "evalDepth12 = \<lparr>cp = Some 35, mate = None, depth = 12, nodes = Some 48213,
                   bestMove = Some ''d3g6'', pv = Some ''d3g6 e8e7''\<rparr>"

definition engineDepth12 :: StockfishEngine where
  "engineDepth12 = handleMessage enginePending lineDepth12"

definition lineDepth8 :: string where
  "lineDepth8 = ''info depth 8 seldepth 10 multipv 1 score cp 90 nodes 5120 nps 700000 pv e1e2 e8e7''"

definition lineBound :: string where
  "lineBound = ''info depth 20 seldepth 27 multipv 1 score cp 120 upperbound nodes 991200 nps 800100 pv e1e2''"

definition pendingDepth12 :: PendingAnalysis where
  "pendingDepth12 = \<lparr>promise = 0, results = [1 \<mapsto> evalDepth12], multiPv = 1, timeoutId = 1\<rparr>"

section \<open>Normalisation of evaluations and the win-chance curve\<close>

lemmas example_defs =
  exampleChess_def chessWithBishop_def chessBishopG6_def
  sacrificeMove_def brokenMove_def mateMove_def stalemateMove_def onlyMove_def
  fenWithBishop_def fenBishopG6_def fenTruncated_def fenOneReply_def fenAfterReply_def
  fenBeforeStalemate_def fenStalemate_def fenBeforeMate_def fenMate_def
  boardWithBishop_def boardBishopG6_def boardOneReply_def boardAfterReply_def
  boardBeforeStalemate_def boardStalemate_def boardBeforeMate_def boardMate_def
  emptyRank_def pc_def evalCp_def evalMate_def

text \<open>
  Claim C7, as the code has it. With a mate value \<open>m\<close> the normalised score is
  \<open>sgn m * (10000 - 10 * max 1 \<bar>m\<bar>)\<close>, whatever the centipawn field holds. For
  \<open>1 \<le> \<bar>m\<bar> \<le> 999\<close> its magnitude lies between 10 and 9990 and its sign is the sign
  of \<open>m\<close>. The magnitude reaches 9990 only for a mate in one (and again for
  \<open>\<bar>m\<bar> \<ge> 1999\<close>, where the sign is reversed).
\<close>

theorem normalize_mate:
  assumes "mate e = Some m"
  shows "evalToCpFromTurnPerspective e = sgn m * (10000 - 10 * max 1 \<bar>m\<bar>) \<and>
         (1 \<le> \<bar>m\<bar> \<and> \<bar>m\<bar> \<le> 999 \<longrightarrow>
            10 \<le> \<bar>evalToCpFromTurnPerspective e\<bar> \<and>
            \<bar>evalToCpFromTurnPerspective e\<bar> \<le> 9990 \<and>
            sgn (evalToCpFromTurnPerspective e) = sgn m) \<and>
         (9990 \<le> \<bar>evalToCpFromTurnPerspective e\<bar> \<longleftrightarrow> \<bar>m\<bar> = 1 \<or> 1999 \<le> \<bar>m\<bar>)"
  using assms
  apply (simp add: evalToCpFromTurnPerspective_def Let_def abs_mult sgn_if)
  apply (auto simp: max_def split: if_splits)
  done

theorem normalize_mate_witness:
  "mate (evalMate (- 3)) = Some (- 3) \<and>
   evalToCpFromTurnPerspective (evalMate (- 3)) = - 9970 \<and>
   sgn (evalToCpFromTurnPerspective (evalMate (- 3))) = - 1"
proof -
  have m: "mate (evalMate (- 3)) = Some (- 3)" by (simp add: evalMate_def)
  show ?thesis using m normalize_mate[OF m] by simp
qed

text \<open>
  A mate in two normalises to 9980, below the bound 9990 that C7 states for every mate
  value.
\<close>

theorem normalize_mate_counterexample:
  "mate (evalMate 2) = Some 2 \<and> \<not> (\<bar>evalToCpFromTurnPerspective (evalMate 2)\<bar> \<ge> 9990)"
  by (simp add: evalToCpFromTurnPerspective_def evalMate_def)

text \<open>Outside \<open>1 \<le> \<bar>m\<bar> \<le> 999\<close> the result is zero or has the opposite sign.\<close>

lemma normalize_mate_zero: "evalToCpFromTurnPerspective (evalMate 0) = 0"
  by (simp add: evalToCpFromTurnPerspective_def evalMate_def)

lemma normalize_mate_far: "evalToCpFromTurnPerspective (evalMate 1500) = - 5000"
  by (simp add: evalToCpFromTurnPerspective_def evalMate_def)

lemma winChance_reflect: "winChance c + winChance (- c) = 100"
proof -
  define t where "t = exp (- (368208 / 100000000) * c)"
  have tpos: "t > 0" by (simp add: t_def)
  have inv: "exp (- (368208 / 100000000) * (- c)) = 1 / t"
    by (simp add: t_def exp_minus field_simps)
  have "winChance c + winChance (- c) = 100 / (1 + t) + 100 / (1 + 1 / t)"
    unfolding winChance_def inv t_def[symmetric] by (simp add: field_simps)
  also have "\<dots> = 100 / (1 + t) + 100 * t / (1 + t)"
    using tpos by (simp add: field_simps)
  also have "\<dots> = 100"
  proof -
    have ne: "1 + t \<noteq> 0" using tpos by simp
    have "100 / (1 + t) + 100 * t / (1 + t) = (100 + 100 * t) / (1 + t)"
      by (simp only: add_divide_distrib)
    also have "100 + 100 * t = 100 * (1 + t)" by (simp only: distrib_left mult_1_right)
    also have "100 * (1 + t) / (1 + t) = 100" by (rule nonzero_mult_div_cancel_right[OF ne])
    finally show ?thesis .
  qed
  finally show ?thesis .
qed

text \<open>
  Claim C8: the win chance of a level score is 50, and the win chances of a score and of
  its negation add up to 100.
\<close>

theorem winChance_symmetric:
  "winChance 0 = 50 \<and> winChance c + winChance (- c) = 100"
  by (simp add: winChance_reflect) (simp add: winChance_def)

text \<open>
  The curve is the logistic function scaled to 100, hence monotone. Over a score
  difference \<open>d \<ge> 0\<close> it rises by at most \<open>100 * (r - 1) / (r + 1)\<close> with
  \<open>r = exp (k * d / 2)\<close> and \<open>k\<close> the constant of the curve. So a win-chance loss above
  10, 20 or 30 needs a score drop above 30, 100 or 250: in \<open>thresholdLadder\<close> the
  win-chance tests never decide.
\<close>

lemma winChance_logistic: "winChance c = 100 / (1 + exp (- (368208 / 100000000) * c))"
proof -
  have pos: "1 + exp (- (368208 / 100000000) * c) > 0" by (simp add: add_pos_pos)
  show ?thesis unfolding winChance_def using pos by (simp add: field_simps)
qed

lemma winChance_mono:
  fixes a b :: real
  assumes "a \<le> b"
  shows "winChance a \<le> winChance b"
proof -
  have "exp (- (368208 / 100000000) * b) \<le> exp (- (368208 / 100000000) * a)"
    using assms by simp
  hence "100 / (1 + exp (- (368208 / 100000000) * a)) \<le> 100 / (1 + exp (- (368208 / 100000000) * b))"
    by (intro divide_left_mono) (auto simp: add_pos_pos)
  thus ?thesis by (simp only: winChance_logistic)
qed

lemma winChance_diff_bound:
  fixes a b :: real
  assumes "b \<le> a"
  shows "winChance a - winChance b
         \<le> 100 * (exp ((368208 / 100000000) * (a - b) / 2) - 1)
               / (exp ((368208 / 100000000) * (a - b) / 2) + 1)"
proof -
  define k :: real where "k = 368208 / 100000000"
  define s where "s = exp (- k * a)"
  define r where "r = exp (k * (a - b) / 2)"
  have spos: "s > 0" by (simp add: s_def)
  have kpos: "k > 0" by (simp add: k_def)
  have rge: "r \<ge> 1" unfolding r_def using assms kpos by simp
  have tb: "exp (- k * b) = s * (r * r)"
    unfolding s_def r_def exp_add[symmetric] by (simp add: algebra_simps)
  have wa: "winChance a = 100 / (1 + s)"
    unfolding winChance_logistic s_def k_def by simp
  have wb: "winChance b = 100 / (1 + s * (r * r))"
    unfolding winChance_logistic tb[symmetric] k_def by simp
  have p1: "1 + s > 0" and p2: "1 + s * (r * r) > 0"
    using spos rge by (auto intro!: add_pos_pos mult_pos_pos)
  define den where "den = (1 + s) * (1 + s * (r * r))"
  have denpos: "den > 0" unfolding den_def using p1 p2 by simp
  have eq: "winChance a - winChance b = 100 * (s * (r * r - 1)) / den"
    unfolding wa wb den_def using p1 p2 by (simp add: field_simps)
  have sq: "den - s * ((r + 1) * (r + 1)) = (1 - s * r) * (1 - s * r)"
    unfolding den_def by (simp add: algebra_simps)
  have "(1 - s * r) * (1 - s * r) \<ge> 0" by simp
  hence den_ge: "s * ((r + 1) * (r + 1)) \<le> den" using sq by linarith
  have "100 * (s * (r * r - 1)) * (r + 1) = 100 * (r - 1) * (s * ((r + 1) * (r + 1)))"
    by (simp add: algebra_simps)
  also have "\<dots> \<le> 100 * (r - 1) * den"
    using den_ge rge by (intro mult_left_mono) auto
  finally have "100 * (s * (r * r - 1)) * (r + 1) \<le> 100 * (r - 1) * den" .
  moreover have "r + 1 > 0" using rge by simp
  ultimately have "100 * (s * (r * r - 1)) / den \<le> 100 * (r - 1) / (r + 1)"
    using denpos by (simp add: field_simps)
  thus ?thesis unfolding eq by (simp add: r_def k_def)
qed

lemma winChance_loss_le:
  fixes a b D R :: real
  assumes d: "a - b \<le> D" and D: "0 \<le> D" and R: "exp ((368208 / 100000000) * D / 2) \<le> R"
  shows "winChance a - winChance b \<le> 100 * (R - 1) / (R + 1)"
proof -
  have R1: "1 \<le> R"
  proof -
    have "1 \<le> exp ((368208 / 100000000) * D / 2)" using D by simp
    thus ?thesis using R by linarith
  qed
  show ?thesis
  proof (cases "b \<le> a")
    case False
    hence "winChance a \<le> winChance b" by (intro winChance_mono) simp
    moreover have "0 \<le> 100 * (R - 1) / (R + 1)" using R1 by simp
    ultimately show ?thesis by linarith
  next
    case True
    define r where "r = exp ((368208 / 100000000) * (a - b) / 2)"
    have r1: "1 \<le> r" unfolding r_def using True by simp
    have rR: "r \<le> R"
    proof -
      have "r \<le> exp ((368208 / 100000000) * D / 2)" unfolding r_def using d by simp
      thus ?thesis using R by linarith
    qed
    have "winChance a - winChance b \<le> 100 * (r - 1) / (r + 1)"
      unfolding r_def by (rule winChance_diff_bound[OF True])
    also have "\<dots> \<le> 100 * (R - 1) / (R + 1)"
    proof -
      have "(r - 1) * (R + 1) \<le> (R - 1) * (r + 1)" using rR by (simp add: algebra_simps)
      hence "(r - 1) / (r + 1) \<le> (R - 1) / (R + 1)"
        using r1 R1 by (simp add: field_simps)
      hence "100 * ((r - 1) / (r + 1)) \<le> 100 * ((R - 1) / (R + 1))"
        by (rule mult_left_mono) simp
      thus ?thesis by (simp only: times_divide_eq_right)
    qed
    finally show ?thesis .
  qed
qed

lemma exp_half_30: "exp ((368208 / 100000000) * (30::real) / 2) \<le> 106 / 100"
proof -
  have "exp ((368208 / 100000000) * (30::real) / 2)
        \<le> 1 + (368208 / 100000000) * 30 / 2 + ((368208 / 100000000) * 30 / 2)\<^sup>2"
    by (rule exp_bound) auto
  also have "\<dots> \<le> 106 / 100" by (simp add: power2_eq_square)
  finally show ?thesis .
qed

lemma exp_half_100: "exp ((368208 / 100000000) * (100::real) / 2) \<le> 122 / 100"
proof -
  have "exp ((368208 / 100000000) * (100::real) / 2)
        \<le> 1 + (368208 / 100000000) * 100 / 2 + ((368208 / 100000000) * 100 / 2)\<^sup>2"
    by (rule exp_bound) auto
  also have "\<dots> \<le> 122 / 100" by (simp add: power2_eq_square)
  finally show ?thesis .
qed

lemma exp_half_250: "exp ((368208 / 100000000) * (250::real) / 2) \<le> 168 / 100"
proof -
  have "exp ((368208 / 100000000) * (250::real) / 2)
        \<le> 1 + (368208 / 100000000) * 250 / 2 + ((368208 / 100000000) * 250 / 2)\<^sup>2"
    by (rule exp_bound) auto
  also have "\<dots> \<le> 168 / 100" by (simp add: power2_eq_square)
  finally show ?thesis .
qed

lemma wcLoss_tiers:
  fixes a b :: int
  shows "a - b \<le> 30 \<Longrightarrow> winChance (real_of_int a) - winChance (real_of_int b) \<le> 10"
    and "a - b \<le> 100 \<Longrightarrow> winChance (real_of_int a) - winChance (real_of_int b) \<le> 20"
    and "a - b \<le> 250 \<Longrightarrow> winChance (real_of_int a) - winChance (real_of_int b) \<le> 30"
proof -
  have r: "real_of_int a - real_of_int b \<le> real_of_int n" if "a - b \<le> n" for n
    using that by (metis of_int_diff of_int_le_iff)
  { assume "a - b \<le> 30"
    hence "real_of_int a - real_of_int b \<le> 30" using r[of 30] by simp
    from winChance_loss_le[OF this _ exp_half_30]
    show "winChance (real_of_int a) - winChance (real_of_int b) \<le> 10" by simp }
  { assume "a - b \<le> 100"
    hence "real_of_int a - real_of_int b \<le> 100" using r[of 100] by simp
    from winChance_loss_le[OF this _ exp_half_100]
    show "winChance (real_of_int a) - winChance (real_of_int b) \<le> 20" by simp }
  { assume "a - b \<le> 250"
    hence "real_of_int a - real_of_int b \<le> 250" using r[of 250] by simp
    from winChance_loss_le[OF this _ exp_half_250]
    show "winChance (real_of_int a) - winChance (real_of_int b) \<le> 30" by simp }
qed

lemma thresholdLadder_by_loss:
  "thresholdLadder sb (max 0 (sb - sa)) (winChance (real_of_int sb) - winChance (real_of_int sa)) isBest
   = thresholdLadder sb (max 0 (sb - sa)) 0 isBest"
proof -
  let ?w = "winChance (real_of_int sb) - winChance (real_of_int sa)"
  have a: "\<not> ?w > 30" if "\<not> max 0 (sb - sa) > 250"
  proof -
    have "sb - sa \<le> 250" using that by simp
    from wcLoss_tiers(3)[OF this] show ?thesis by simp
  qed
  have b: "\<not> ?w > 20" if "\<not> max 0 (sb - sa) > 100"
  proof -
    have "sb - sa \<le> 100" using that by simp
    from wcLoss_tiers(2)[OF this] show ?thesis by simp
  qed
  have c: "\<not> ?w > 10" if "\<not> max 0 (sb - sa) > 30"
  proof -
    have "sb - sa \<le> 30" using that by simp
    from wcLoss_tiers(1)[OF this] show ?thesis by simp
  qed
  show ?thesis
    unfolding thresholdLadder_def using a b c by auto
qed

section \<open>Properties of the move classification\<close>

lemma no_moves_isGameOver: "moves g = [] \<Longrightarrow> isGameOver g"
  by (cases "isCheck g") (simp_all add: isGameOver_def isCheckmate_def isStalemate_def)

lemma ladder_10:
  assumes "wcLoss \<le> 10"
  shows "thresholdLadder sb 10 wcLoss isBest = Excellent"
  using assms by (simp add: thresholdLadder_def)

lemma greatOverride_cases:
  "greatOverride c isBest cpl sbe sb sa = c \<or> greatOverride c isBest cpl sbe sb sa = Great"
  by (auto simp: greatOverride_def Let_def split: option.splits)

lemma classifyMove_normal_path:
  assumes sb: "sb = evalToCpFromTurnPerspective evalBefore"
    and sa: "sa = - evalToCpFromTurnPerspective evalAfter"
    and cpl: "cpl = max 0 (sb - sa)"
    and ne: "\<not> endsGame chess move" and nf: "\<not> isOnlyLegalMove"
    and nb: "\<not> (ply move \<le> openingPlyLimit \<and> cpl \<le> 25)"
    and gb: "chess (fenBefore move) = Some gb" and ga: "chess (fenAfter move) = Some ga"
  shows "classifyMove chess move evalBefore evalAfter bestMv openingPlyLimit secondBestEval isOnlyLegalMove =
     Inr \<lparr>classification = Some
            (greatOverride
               (if isBrilliant (lan move = bestMv)
                     (netSacrifice (turn move) (materialOfBoard (board gb)) (materialOfBoard (board ga)))
                     cpl sb sa
                then Brilliant
                else if lan move = bestMv \<and> cpl \<le> 10 then Best
                else thresholdLadder sb cpl (winChance (real_of_int sb) - winChance (real_of_int sa))
                       (lan move = bestMv))
               (lan move = bestMv) cpl secondBestEval sb sa),
          centipawnLoss = cpl\<rparr>"
proof -
  have nb': "(ply move \<le> openingPlyLimit \<and> cpl \<le> 25) = False" using nb by simp
  show ?thesis
    unfolding classifyMove_def Let_def
    unfolding sb[symmetric]
    unfolding sa[symmetric]
    unfolding cpl[symmetric]
    unfolding nb'
    using ne nf by (simp add: materialByColor_def gb ga)
qed

lemma sacrifice_net:
  "netSacrifice White (materialOfBoard boardWithBishop) (materialOfBoard boardBishopG6) = 0"
  by (simp add: netSacrifice_def materialOfBoard_def example_defs)

lemma sacrifice_not_terminal: "\<not> endsGame exampleChess sacrificeMove"
  by (simp add: endsGame_def endsWith_def isGameOver_def isCheckmate_def isStalemate_def example_defs)

lemma sacrifice_positions:
  "exampleChess (fenBefore sacrificeMove) = Some chessWithBishop"
  "exampleChess (fenAfter sacrificeMove) = Some chessBishopG6"
  by (simp_all add: exampleChess_def sacrificeMove_def fenWithBishop_def fenBishopG6_def)

lemma sacrifice_boards:
  "board chessWithBishop = boardWithBishop" "board chessBishopG6 = boardBishopG6"
  by (simp_all add: chessWithBishop_def chessBishopG6_def)

text \<open>
  Claim C2: a move whose SAN ends with \<open>#\<close>, or whose resulting position is accepted by
  the library and has no legal move or is otherwise over, is classified \<open>best\<close> with
  loss 0, whatever the other arguments are.
\<close>

theorem classifyMove_terminal:
  assumes "endsWith (san move) ''#'' \<or>
           (\<exists>g. chess (fenAfter move) = Some g \<and> (moves g = [] \<or> isGameOver g))"
  shows "classifyMove chess move evalBefore evalAfter bestMv openingPlyLimit secondBestEval isOnlyLegalMove
         = Inr \<lparr>classification = Some Best, centipawnLoss = 0\<rparr>"
proof -
  have "endsGame chess move"
    using assms by (auto simp: endsGame_def no_moves_isGameOver)
  thus ?thesis by (simp add: classifyMove_def)
qed

theorem classifyMove_terminal_witness:
  "endsWith (san mateMove) ''#'' \<and>
   classifyMove exampleChess mateMove (evalCp 0) (evalCp 900) ''a2a3'' 10 None True
     = Inr \<lparr>classification = Some Best, centipawnLoss = 0\<rparr> \<and>
   classifyMove exampleChess stalemateMove (evalCp 900) (evalCp 0) ''a2a3'' 10 None False
     = Inr \<lparr>classification = Some Best, centipawnLoss = 0\<rparr>"
proof -
  have a: "endsWith (san mateMove) ''#''" by (simp add: endsWith_def mateMove_def)
  have b: "\<exists>g. exampleChess (fenAfter stalemateMove) = Some g \<and> (moves g = [] \<or> isGameOver g)"
    by (simp add: example_defs)
  show ?thesis
    using a classifyMove_terminal[of mateMove exampleChess "evalCp 0" "evalCp 900" "''a2a3''" 10 None True]
      classifyMove_terminal[of stalemateMove exampleChess "evalCp 900" "evalCp 0" "''a2a3''" 10 None False] b
    by simp
qed

text \<open>
  Claim C3: a move that does not end the game and is flagged as the only legal move is
  classified \<open>forced\<close> with loss 0, whatever the preferred move, the ply and the
  evaluations are; the orchestrator sets the flag when the position before the move has
  at most one legal move.
\<close>

theorem classifyMove_forced:
  assumes "\<not> endsGame chess move"
  shows "(isOnlyLegalMove \<longrightarrow>
            classifyMove chess move evalBefore evalAfter bestMv openingPlyLimit secondBestEval isOnlyLegalMove
            = Inr \<lparr>classification = Some Forced, centipawnLoss = 0\<rparr>) \<and>
         ((\<exists>g. chess (fenBefore move) = Some g \<and> length (moves g) \<le> 1) \<longrightarrow>
            classifyMove chess move evalBefore evalAfter bestMv openingPlyLimit secondBestEval
              (onlyLegalMove chess (fenBefore move))
            = Inr \<lparr>classification = Some Forced, centipawnLoss = 0\<rparr>)"
  using assms by (auto simp: classifyMove_def Let_def onlyLegalMove_def)

theorem classifyMove_forced_witness:
  "classifyMove exampleChess onlyMove (evalCp (- 200)) (evalCp 700) ''g1h1'' 10 None True
     = Inr \<lparr>classification = Some Forced, centipawnLoss = 0\<rparr> \<and>
   onlyLegalMove exampleChess (fenBefore onlyMove) \<and>
   classifyMove exampleChess onlyMove (evalCp (- 200)) (evalCp 700) ''g1h1'' 10 None
       (onlyLegalMove exampleChess (fenBefore onlyMove))
     = Inr \<lparr>classification = Some Forced, centipawnLoss = 0\<rparr>"
proof -
  have a: "\<not> endsGame exampleChess onlyMove"
    by (simp add: endsGame_def endsWith_def isGameOver_def isCheckmate_def isStalemate_def example_defs)
  have b: "\<exists>g. exampleChess (fenBefore onlyMove) = Some g \<and> length (moves g) \<le> 1"
    by (simp add: example_defs)
  have c: "onlyLegalMove exampleChess (fenBefore onlyMove)"
    by (simp add: onlyLegalMove_def example_defs)
  show ?thesis
    using classifyMove_forced[OF a, of True "evalCp (- 200)" "evalCp 700" "''g1h1''" 10 None] b c
    by simp
qed

text \<open>
  Claim C9: for a move that does not end the game, is not forced and lies beyond the
  opening horizon, with a drop of exactly 10 centipawns, every verdict returned has loss
  10 and a label that is none of \<open>inaccuracy\<close>, \<open>mistake\<close>, \<open>blunder\<close> but \<open>good\<close> or
  better, and a verdict is returned when the library accepts both positions; the
  win-chance loss of such a drop does not exceed 10. For all scores the label of the ladder is the one that the loss
  thresholds 10, 30, 100 and 250 give by themselves.
\<close>

lemma classifyMove_returns_positions:
  assumes "classifyMove chess move evalBefore evalAfter bestMv openingPlyLimit secondBestEval isOnlyLegalMove = Inr v"
    and "\<not> endsGame chess move" and "\<not> isOnlyLegalMove" and "openingPlyLimit < ply move"
  shows "chess (fenBefore move) \<noteq> None \<and> chess (fenAfter move) \<noteq> None"
  using assms
  by (auto simp: classifyMove_def Let_def materialByColor_def split: if_splits sum.splits option.splits)

theorem classifyMove_loss_10:
  assumes "\<not> endsGame chess move" and "\<not> isOnlyLegalMove" and "openingPlyLimit < ply move"
    and "evalToCpFromTurnPerspective evalBefore - (- evalToCpFromTurnPerspective evalAfter) = 10"
  shows "(\<forall>v. classifyMove chess move evalBefore evalAfter bestMv openingPlyLimit secondBestEval isOnlyLegalMove = Inr v
            \<longrightarrow> centipawnLoss v = 10 \<and>
                (\<exists>c. classification v = Some c \<and> c \<notin> {Inaccuracy, Mistake, Blunder}
                       \<and> c \<in> {Good, Excellent, Best, Great, Brilliant}))
         \<and> (chess (fenBefore move) \<noteq> None \<and> chess (fenAfter move) \<noteq> None \<longrightarrow>
              (\<exists>v. classifyMove chess move evalBefore evalAfter bestMv openingPlyLimit secondBestEval isOnlyLegalMove = Inr v))
         \<and> winChance (real_of_int (evalToCpFromTurnPerspective evalBefore))
           - winChance (real_of_int (- evalToCpFromTurnPerspective evalAfter)) \<le> 10
         \<and> (\<forall>sb sa b. thresholdLadder sb (max 0 (sb - sa))
                         (winChance (real_of_int sb) - winChance (real_of_int sa)) b
                       = thresholdLadder sb (max 0 (sb - sa)) 0 b)"
proof -
  define sb where "sb = evalToCpFromTurnPerspective evalBefore"
  define sa where "sa = - evalToCpFromTurnPerspective evalAfter"
  let ?r = "classifyMove chess move evalBefore evalAfter bestMv openingPlyLimit secondBestEval isOnlyLegalMove"
  have d: "sb - sa = 10" using assms(4) by (simp add: sb_def sa_def)
  have wc: "winChance (real_of_int sb) - winChance (real_of_int sa) \<le> 10"
    using d by (intro wcLoss_tiers(1)) simp
  hence wc': "winChance (real_of_int (evalToCpFromTurnPerspective evalBefore))
         - winChance (real_of_int (- evalToCpFromTurnPerspective evalAfter)) \<le> 10"
    by (simp only: sb_def sa_def)
  have cpl: "10 = max 0 (sb - sa)" using d by simp
  have nb: "\<not> (ply move \<le> openingPlyLimit \<and> (10::int) \<le> 25)"
    using assms(3) by simp
  have valid: "\<exists>c. ?r = Inr \<lparr>classification = Some c, centipawnLoss = 10\<rparr>
                  \<and> c \<notin> {Inaccuracy, Mistake, Blunder}
                  \<and> c \<in> {Good, Excellent, Best, Great, Brilliant}"
    if g: "chess (fenBefore move) = Some gb" "chess (fenAfter move) = Some ga" for gb ga
  proof -
    let ?c3 = "if isBrilliant (lan move = bestMv)
                    (netSacrifice (turn move) (materialOfBoard (board gb)) (materialOfBoard (board ga)))
                    10 sb sa
               then Brilliant
               else if lan move = bestMv \<and> (10::int) \<le> 10 then Best
               else thresholdLadder sb 10 (winChance (real_of_int sb) - winChance (real_of_int sa))
                      (lan move = bestMv)"
    let ?c4 = "greatOverride ?c3 (lan move = bestMv) 10 secondBestEval sb sa"
    have eq: "?r = Inr \<lparr>classification = Some ?c4, centipawnLoss = 10\<rparr>"
      by (rule classifyMove_normal_path[OF sb_def sa_def cpl assms(1,2) nb g])
    have "?c3 \<in> {Excellent, Best, Brilliant}"
      using wc by (simp add: ladder_10)
    moreover have "?c4 = ?c3 \<or> ?c4 = Great" by (rule greatOverride_cases)
    ultimately have "?c4 \<in> {Excellent, Best, Brilliant, Great}" by auto
    hence "?c4 \<notin> {Inaccuracy, Mistake, Blunder} \<and> ?c4 \<in> {Good, Excellent, Best, Great, Brilliant}"
      by auto
    with eq show ?thesis by blast
  qed
  have safe: "centipawnLoss v = 10 \<and>
                (\<exists>c. classification v = Some c \<and> c \<notin> {Inaccuracy, Mistake, Blunder}
                       \<and> c \<in> {Good, Excellent, Best, Great, Brilliant})"
    if r: "?r = Inr v" for v
  proof -
    obtain gb ga where "chess (fenBefore move) = Some gb" "chess (fenAfter move) = Some ga"
      using classifyMove_returns_positions[OF r assms(1,2,3)] by auto
    from valid[OF this] r show ?thesis by auto
  qed
  have total: "\<exists>v. ?r = Inr v"
    if ok: "chess (fenBefore move) \<noteq> None \<and> chess (fenAfter move) \<noteq> None"
  proof -
    obtain gb ga where "chess (fenBefore move) = Some gb" "chess (fenAfter move) = Some ga"
      using ok by auto
    from valid[OF this] show ?thesis by blast
  qed
  show ?thesis using safe total wc' thresholdLadder_by_loss by blast
qed

theorem classifyMove_loss_10_witness:
  "\<exists>v c. classifyMove exampleChess sacrificeMove (evalCp 30) (evalCp (- 20)) ''e1e2'' 10 None False = Inr v
        \<and> centipawnLoss v = 10 \<and> classification v = Some c
        \<and> c \<notin> {Inaccuracy, Mistake, Blunder}"
proof -
  have p: "10 < ply sacrificeMove" by (simp add: sacrificeMove_def)
  have d: "evalToCpFromTurnPerspective (evalCp 30) - (- evalToCpFromTurnPerspective (evalCp (- 20))) = 10"
    by (simp add: evalToCpFromTurnPerspective_def evalCp_def)
  have f: "exampleChess (fenBefore sacrificeMove) \<noteq> None \<and> exampleChess (fenAfter sacrificeMove) \<noteq> None"
    by (simp add: sacrifice_positions)
  have n: "\<not> False" by simp
  show ?thesis
    using classifyMove_loss_10[OF sacrifice_not_terminal n p d,
            where bestMv = "''e1e2''" and secondBestEval = None] f
    by blast
qed

text \<open>
  What holds of every verdict that \<open>classifyMove\<close> returns: it carries one of the ten
  labels, never \<open>null\<close>, and a loss that is not negative. A verdict is returned when
  the library accepts both position encodings of the move.
\<close>

lemma classifyMove_label_and_loss:
  "(\<forall>v. classifyMove chess move evalBefore evalAfter bestMv openingPlyLimit secondBestEval isOnlyLegalMove = Inr v
        \<longrightarrow> classification v \<in> Some ` {Brilliant, Great, Best, Excellent, Good, Book, Inaccuracy,
                                           Mistake, Blunder, Forced}
            \<and> classification v \<noteq> None \<and> 0 \<le> centipawnLoss v)
   \<and> (chess (fenBefore move) \<noteq> None \<and> chess (fenAfter move) \<noteq> None \<longrightarrow>
        (\<exists>v. classifyMove chess move evalBefore evalAfter bestMv openingPlyLimit secondBestEval isOnlyLegalMove = Inr v))"
proof -
  have labels: "Some l \<in> Some ` {Brilliant, Great, Best, Excellent, Good, Book, Inaccuracy,
                                   Mistake, Blunder, Forced}" for l
    by (cases l) simp_all
  have "classification v \<noteq> None \<and> 0 \<le> centipawnLoss v"
    if "classifyMove chess move evalBefore evalAfter bestMv openingPlyLimit secondBestEval isOnlyLegalMove = Inr v"
    for v
    using that
    by (auto simp: classifyMove_def Let_def materialByColor_def split: if_splits sum.splits option.splits)
  moreover have "\<exists>v. classifyMove chess move evalBefore evalAfter bestMv openingPlyLimit secondBestEval isOnlyLegalMove = Inr v"
    if "chess (fenBefore move) \<noteq> None \<and> chess (fenAfter move) \<noteq> None"
    using that
    by (auto simp: classifyMove_def Let_def materialByColor_def split: if_splits sum.splits option.splits)
  ultimately show ?thesis using labels by (metis not_None_eq)
qed

text \<open>
  \<open>classifyMove\<close> throws exactly when the move does not end the game, is not forced and
  is not a book move, and the library rejects one of its two position encodings.
\<close>

lemma classifyMove_throws_iff:
  "(\<exists>e. classifyMove chess move evalBefore evalAfter bestMv openingPlyLimit secondBestEval isOnlyLegalMove = Inl e)
   \<longleftrightarrow> \<not> endsGame chess move \<and> \<not> isOnlyLegalMove \<and>
       \<not> (ply move \<le> openingPlyLimit \<and>
          max 0 (evalToCpFromTurnPerspective evalBefore - (- evalToCpFromTurnPerspective evalAfter)) \<le> 25) \<and>
       (chess (fenBefore move) = None \<or> chess (fenAfter move) = None)"
  by (auto simp: classifyMove_def Let_def materialByColor_def split: if_splits sum.splits option.splits)

text \<open>
  Claim C10 says that \<open>classifyMove\<close> returns a label for every input. On \<open>brokenMove\<close>,
  whose resulting encoding the library rejects, the guarded terminal check passes over
  the rejection, and the unguarded \<open>materialByColor\<close> then throws on the same encoding:
  no verdict is returned.
\<close>

theorem classifyMove_throws_on_rejected_position:
  "exampleChess (fenBefore brokenMove) \<noteq> None \<and>
   exampleChess (fenAfter brokenMove) = None \<and>
   \<not> endsGame exampleChess brokenMove \<and>
   classifyMove exampleChess brokenMove (evalCp 120) (evalCp (- 115)) ''d3g6'' 10 None False
     = Inl InvalidFen"
  by (simp add: classifyMove_def Let_def materialByColor_def endsGame_def endsWith_def
      evalToCpFromTurnPerspective_def example_defs)

text \<open>
  A verdict is \<open>brilliant\<close> only if the mover's material, net of the opponent's, is at
  least 2 lower in the position after the move than in the position before it. The two
  positions are those before and after the mover's own ply.
\<close>

lemma thresholdLadder_not_brilliant: "thresholdLadder sb cpl wcLoss isBest \<noteq> Brilliant"
  by (simp add: thresholdLadder_def)

lemma classifyMove_brilliant_needs_net:
  assumes r: "classifyMove chess move evalBefore evalAfter bestMv openingPlyLimit secondBestEval isOnlyLegalMove = Inr v"
    and b: "classification v = Some Brilliant"
  shows "\<exists>gb ga. chess (fenBefore move) = Some gb \<and> chess (fenAfter move) = Some ga \<and>
           2 \<le> netSacrifice (turn move) (materialOfBoard (board gb)) (materialOfBoard (board ga))"
proof -
  define sb where "sb = evalToCpFromTurnPerspective evalBefore"
  define sa where "sa = - evalToCpFromTurnPerspective evalAfter"
  define cpl where "cpl = max 0 (sb - sa)"
  have ne: "\<not> endsGame chess move" using r b by (auto simp: classifyMove_def)
  have nf: "\<not> isOnlyLegalMove" using r b ne by (auto simp: classifyMove_def Let_def)
  have nb: "\<not> (ply move \<le> openingPlyLimit \<and> cpl \<le> 25)"
    using r b ne nf unfolding cpl_def sb_def sa_def by (auto simp: classifyMove_def Let_def)
  have "\<not> (\<exists>e. classifyMove chess move evalBefore evalAfter bestMv openingPlyLimit secondBestEval isOnlyLegalMove = Inl e)"
    using r by simp
  hence "chess (fenBefore move) \<noteq> None \<and> chess (fenAfter move) \<noteq> None"
    unfolding classifyMove_throws_iff using ne nf nb unfolding cpl_def sb_def sa_def by auto
  then obtain gb ga where g: "chess (fenBefore move) = Some gb" "chess (fenAfter move) = Some ga"
    by auto
  let ?net = "netSacrifice (turn move) (materialOfBoard (board gb)) (materialOfBoard (board ga))"
  let ?c3 = "if isBrilliant (lan move = bestMv) ?net cpl sb sa then Brilliant
             else if lan move = bestMv \<and> cpl \<le> 10 then Best
             else thresholdLadder sb cpl (winChance (real_of_int sb) - winChance (real_of_int sa))
                    (lan move = bestMv)"
  have "classification v = Some (greatOverride ?c3 (lan move = bestMv) cpl secondBestEval sb sa)"
    using r unfolding classifyMove_normal_path[OF sb_def sa_def cpl_def ne nf nb g] by auto
  hence "greatOverride ?c3 (lan move = bestMv) cpl secondBestEval sb sa = Brilliant"
    using b by simp
  hence "?c3 = Brilliant"
    using greatOverride_cases[of ?c3 "lan move = bestMv" cpl secondBestEval sb sa] by auto
  hence "isBrilliant (lan move = bestMv) ?net cpl sb sa"
    using thresholdLadder_not_brilliant by (auto split: if_splits)
  hence "2 \<le> ?net" by (simp add: isBrilliant_def)
  thus ?thesis using g by blast
qed

text \<open>
  Claim C1 asks \<open>brilliant\<close> for the preferred move that gives up a bishop at a loss of
  5. \<open>sacrificeMove\<close> is such a move: Bg6+ leaves the bishop to the pawn on h7. The code
  compares the material before and after the bishop's own move, finds no difference, and
  returns \<open>best\<close>, with score 120 before and 115 after as with 45 before and 40 after.
\<close>

theorem classifyMove_sacrifice_is_best:
  "lan sacrificeMove = ''d3g6'' \<and>
   \<not> endsGame exampleChess sacrificeMove \<and>
   10 < ply sacrificeMove \<and>
   netSacrifice (turn sacrificeMove) (materialOfBoard boardWithBishop) (materialOfBoard boardBishopG6) = 0 \<and>
   classifyMove exampleChess sacrificeMove (evalCp 120) (evalCp (- 115)) ''d3g6'' 10 None False
     = Inr \<lparr>classification = Some Best, centipawnLoss = 5\<rparr> \<and>
   classifyMove exampleChess sacrificeMove (evalCp 45) (evalCp (- 40)) ''d3g6'' 10 None False
     = Inr \<lparr>classification = Some Best, centipawnLoss = 5\<rparr>"
proof -
  have nb: "\<not> (ply sacrificeMove \<le> 10 \<and> (5::int) \<le> 25)"
    by (simp add: sacrificeMove_def)
  have s1: "(120::int) = evalToCpFromTurnPerspective (evalCp 120)"
    "(115::int) = - evalToCpFromTurnPerspective (evalCp (- 115))"
    and s2: "(45::int) = evalToCpFromTurnPerspective (evalCp 45)"
    "(40::int) = - evalToCpFromTurnPerspective (evalCp (- 40))"
    by (simp_all add: evalToCpFromTurnPerspective_def evalCp_def)
  have c1: "(5::int) = max 0 (120 - 115)" and c2: "(5::int) = max 0 (45 - 40)" by simp_all
  have f: "\<not> False" by simp
  have a: "classifyMove exampleChess sacrificeMove (evalCp 120) (evalCp (- 115)) ''d3g6'' 10 None False
           = Inr \<lparr>classification = Some Best, centipawnLoss = 5\<rparr>"
    unfolding classifyMove_normal_path[OF s1 c1 sacrifice_not_terminal f nb sacrifice_positions]
    by (simp add: isBrilliant_def greatOverride_def sacrificeMove_def sacrifice_boards sacrifice_net)
  have b: "classifyMove exampleChess sacrificeMove (evalCp 45) (evalCp (- 40)) ''d3g6'' 10 None False
           = Inr \<lparr>classification = Some Best, centipawnLoss = 5\<rparr>"
    unfolding classifyMove_normal_path[OF s2 c2 sacrifice_not_terminal f nb sacrifice_positions]
    by (simp add: isBrilliant_def greatOverride_def sacrificeMove_def sacrifice_boards sacrifice_net)
  show ?thesis
    using a b sacrifice_not_terminal
    by (simp add: sacrifice_net sacrificeMove_def)
qed

text \<open>
  With the two scores that the scenario of C1 names, 120 before and 40 after, the loss is
  80 and the same move is an \<open>inaccuracy\<close>.
\<close>

lemma classifyMove_scenario_scores:
  "classifyMove exampleChess sacrificeMove (evalCp 120) (evalCp (- 40)) ''d3g6'' 10 None False
     = Inr \<lparr>classification = Some Inaccuracy, centipawnLoss = 80\<rparr>"
proof -
  have s: "(120::int) = evalToCpFromTurnPerspective (evalCp 120)"
    "(40::int) = - evalToCpFromTurnPerspective (evalCp (- 40))"
    by (simp_all add: evalToCpFromTurnPerspective_def evalCp_def)
  have c: "(80::int) = max 0 (120 - 40)" by simp
  have nb: "\<not> (ply sacrificeMove \<le> 10 \<and> (80::int) \<le> 25)" by simp
  have f: "\<not> False" by simp
  have "winChance (real_of_int 120) - winChance (real_of_int 40) \<le> 20"
    by (intro wcLoss_tiers(2)) simp
  hence lad: "thresholdLadder 120 80 (winChance (real_of_int 120) - winChance (real_of_int 40)) True = Inaccuracy"
    by (simp add: thresholdLadder_def)
  show ?thesis
    unfolding classifyMove_normal_path[OF s c sacrifice_not_terminal f nb sacrifice_positions]
    using lad by (simp add: isBrilliant_def greatOverride_def sacrificeMove_def)
qed

section \<open>Properties of the engine adapter\<close>

lemma emit_fields [simp]:
  "worker (emit e eng) = worker eng" "ready (emit e eng) = ready eng"
  "pending (emit e eng) = pending eng" "waiting (emit e eng) = waiting eng"
  "timers (emit e eng) = timers eng" "nextId (emit e eng) = nextId eng"
  "effects (emit e eng) = effects eng @ [e]"
  by (simp_all add: emit_def)

lemma postMessage_fields [simp]:
  "worker (postMessage m eng) = worker eng" "ready (postMessage m eng) = ready eng"
  "pending (postMessage m eng) = pending eng" "waiting (postMessage m eng) = waiting eng"
  "timers (postMessage m eng) = timers eng" "nextId (postMessage m eng) = nextId eng"
  "effects (postMessage m eng) = (if worker eng then effects eng @ [PostMessage m] else effects eng)"
  by (simp_all add: postMessage_def)

lemma clearTimeout_fields [simp]:
  "worker (clearTimeout t eng) = worker eng" "ready (clearTimeout t eng) = ready eng"
  "pending (clearTimeout t eng) = pending eng" "waiting (clearTimeout t eng) = waiting eng"
  "timers (clearTimeout t eng) = (timers eng)(t := None)" "nextId (clearTimeout t eng) = nextId eng"
  "effects (clearTimeout t eng) = effects eng"
  by (simp_all add: clearTimeout_def)

subsection \<open>The invariant\<close>

lemma inv_new: "engine_inv (newEngine w)"
  by (simp add: engine_inv_def newEngine_def Let_def)

lemma inv_stop: "engine_inv eng \<Longrightarrow> engine_inv (stop eng)"
  by (auto simp: engine_inv_def stop_def split: option.splits)

lemma inv_quit: "engine_inv eng \<Longrightarrow> engine_inv (quit eng)"
  by (auto simp: engine_inv_def quit_def Let_def split: option.splits)

lemma inv_error: "engine_inv eng \<Longrightarrow> engine_inv (onWorkerError eng)"
  by (auto simp: engine_inv_def onWorkerError_def split: option.splits)

lemma inv_timeout: "engine_inv eng \<Longrightarrow> engine_inv (onTimeout t eng)"
  by (auto simp: engine_inv_def onTimeout_def Let_def stop_def split: option.splits list.splits if_splits)

lemma startAnalysis_ready:
  assumes "ready eng"
  shows "startAnalysis eng (caller, fen, options) =
    (let n = (case optMultiPv options of Some v \<Rightarrow> v | None \<Rightarrow> 1);
         d = (case optDepth options of Some v \<Rightarrow> v | None \<Rightarrow> 18);
         eng1 = stop eng;
         eng2 = (case pending eng1 of
                   None \<Rightarrow> eng1
                 | Some p \<Rightarrow> (emit (Reject (promise p) Cancelled)
                                 (clearTimeout (timeoutId p) eng1))\<lparr>pending := None\<rparr>);
         t = nextId eng2;
         eng3 = eng2\<lparr>timers := (timers eng2)(t \<mapsto> (caller, n)), nextId := Suc t\<rparr>;
         eng4 = eng3\<lparr>pending := Some \<lparr>promise = caller, results = Map.empty,
                                         multiPv = n, timeoutId = t\<rparr>\<rparr>
     in postMessage (goCommand (optMoveTimeMs options) d)
          (postMessage (''position fen '' @ fen)
             (postMessage (''setoption name MultiPV value '' @ showNat n) eng4)))"
  using assms by (simp add: startAnalysis_def Let_def)

lemma inv_start:
  assumes "engine_inv eng" and "fst req < nextId eng" and "fst req \<notin> fst ` set (waiting eng)"
  shows "engine_inv (startAnalysis eng req)"
proof (cases "ready eng")
  case False
  thus ?thesis using assms
    by (cases req) (auto simp: startAnalysis_def Let_def engine_inv_def split: option.splits)
next
  case True
  obtain caller fen options where req: "req = (caller, fen, options)" by (cases req)
  show ?thesis
    using assms True unfolding req startAnalysis_ready[OF True]
    by (auto simp: engine_inv_def Let_def stop_def split: option.splits)
qed

lemma inv_resume:
  assumes "engine_inv eng"
  shows "engine_inv (resume eng)"
proof (cases "waiting eng")
  case Nil
  thus ?thesis using assms by (simp add: resume_def)
next
  case (Cons req rest)
  show ?thesis
  proof (cases "ready eng")
    case False
    thus ?thesis using assms Cons by (simp add: resume_def)
  next
    case True
    have i: "engine_inv (eng\<lparr>waiting := rest\<rparr>)"
      using assms Cons by (auto simp: engine_inv_def split: option.splits)
    have "fst req < nextId (eng\<lparr>waiting := rest\<rparr>)"
      and "fst req \<notin> fst ` set (waiting (eng\<lparr>waiting := rest\<rparr>))"
      using assms Cons by (auto simp: engine_inv_def)
    from inv_start[OF i this] show ?thesis using Cons True by (simp add: resume_def)
  qed
qed

lemma inv_message:
  assumes "engine_inv eng"
  shows "engine_inv (handleMessage eng line)"
  using assms
  by (auto simp: handleMessage_def engine_inv_def Let_def split: option.splits prod.splits)

lemma inv_analyze:
  assumes "engine_inv eng"
  shows "engine_inv (snd (analyzePosition eng fen options))"
  using assms
  by (fastforce simp: analyzePosition_def Let_def engine_inv_def split: option.splits)

lemma reachable_inv: "reachable eng \<Longrightarrow> engine_inv eng"
  by (induction rule: reachable.induct)
     (simp_all add: inv_new inv_message inv_error inv_analyze inv_resume inv_timeout inv_stop inv_quit)

lemma reachable_pending:
  assumes "reachable eng" and "pending eng = Some p"
  shows "ready eng" "promise p < nextId eng" "timeoutId p < nextId eng"
    "timers eng = [timeoutId p \<mapsto> (promise p, multiPv p)]"
    "promise p \<notin> fst ` set (waiting eng)"
  using reachable_inv[OF assms(1)] assms(2) by (auto simp: engine_inv_def)

lemma reachable_timer:
  assumes "reachable eng" and "timers eng t = Some (caller, n)"
  shows "\<exists>p. pending eng = Some p \<and> promise p = caller \<and> multiPv p = n \<and> timeoutId p = t"
proof (cases "pending eng")
  case None
  thus ?thesis using reachable_inv[OF assms(1)] assms(2) by (simp add: engine_inv_def)
next
  case (Some p)
  have "timers eng = [timeoutId p \<mapsto> (promise p, multiPv p)]"
    using reachable_pending[OF assms(1) Some] by simp
  thus ?thesis using assms(2) Some by (auto split: if_splits)
qed

subsection \<open>The parser and the message handler\<close>

lemma search_skip:
  assumes "search m (if xs = [] then pw else isWordChar (last xs)) ys \<noteq> None"
  shows "search m pw (xs @ ys) \<noteq> None"
  using assms
proof (induction xs arbitrary: pw)
  case Nil thus ?case by simp
next
  case (Cons x xs)
  have "search m (isWordChar x) (xs @ ys) \<noteq> None"
    using Cons.prems by (intro Cons.IH) (simp split: if_splits)
  thus ?case by (simp split: option.splits)
qed

lemma boundWord_upper: "wordEnd post \<Longrightarrow> boundWord (''upperbound'' @ post) = Some ()"
  by (simp add: boundWord_def stripPrefix_def startsWith_def)

lemma boundWord_lower: "wordEnd post \<Longrightarrow> boundWord (''lowerbound'' @ post) = Some ()"
  by (simp add: boundWord_def stripPrefix_def startsWith_def)

lemma space_not_word: "\<not> isWordChar CHR '' ''"
  by (simp add: isWordChar_def)

lemma word_u_l: "isWordChar CHR ''u''" "isWordChar CHR ''l''"
  by (simp_all add: isWordChar_def)

lemma hasBound_token:
  assumes "w = ''upperbound'' \<or> w = ''lowerbound''" and "wordEnd post"
  shows "hasBound (pre @ CHR '' '' # w @ post)"
proof -
  have "search boundWord False (w @ post) \<noteq> None"
    using assms boundWord_upper[of post] boundWord_lower[of post] word_u_l
    by auto
  hence "search boundWord (if pre @ [CHR '' ''] = [] then False else isWordChar (last (pre @ [CHR '' '']))) (w @ post) \<noteq> None"
    by (simp add: space_not_word)
  hence "search boundWord False ((pre @ [CHR '' '']) @ (w @ post)) \<noteq> None"
    by (rule search_skip)
  thus ?thesis by (simp add: hasBound_def)
qed

lemma parseInfoLine_bound: "hasBound line \<Longrightarrow> parseInfoLine line = None"
  by (simp add: parseInfoLine_def split: option.splits)

lemma startsWith_Cons:
  "startsWith s (c # p) = (case s of [] \<Rightarrow> False | x # r \<Rightarrow> x = c \<and> startsWith r p)"
  by (cases s) (auto simp: startsWith_def)

lemma info_not_handshake:
  assumes "startsWith line ''info ''"
  shows "line \<noteq> ''uciok''" "line \<noteq> ''readyok''" "\<not> startsWith line ''bestmove''"
  using assms by (auto simp: startsWith_Cons split: list.splits)

lemma bestmove_not_handshake:
  assumes "startsWith line ''bestmove''"
  shows "line \<noteq> ''uciok''" "line \<noteq> ''readyok''" "\<not> startsWith line ''info ''"
  using assms by (auto simp: startsWith_Cons split: list.splits)

lemma handleMessage_uciok:
  "handleMessage eng ''uciok'' = postMessage ''isready'' (postMessage ''setoption name Hash value 32'' eng)"
  by (simp add: handleMessage_def)

lemma handleMessage_readyok:
  "handleMessage eng ''readyok'' = eng\<lparr>ready := True\<rparr>"
  by (simp add: handleMessage_def)

lemma handleMessage_info:
  assumes "startsWith line ''info ''" and "pending eng = Some p"
  shows "handleMessage eng line = eng\<lparr>pending := Some (retain p (parseInfoLine line))\<rparr>"
proof -
  have e: "eng\<lparr>pending := Some p\<rparr> = eng" using assms(2) by simp
  show ?thesis
    using info_not_handshake[OF assms(1)] assms e
    by (simp add: handleMessage_def retain_def split: option.splits prod.splits)
qed

lemma handleMessage_bestmove:
  assumes "startsWith line ''bestmove''" and "pending eng = Some p"
  shows "handleMessage eng line =
     (let ws = splitOn CHR '' '' line;
          mv = (if length ws > 1 then Some (ws ! 1) else None);
          rs = map (\<lambda>i. withBestMove mv i (lineOrDefault (results p) i)) [1 ..< Suc (multiPv p)]
      in (emit (Resolve (promise p) rs) (clearTimeout (timeoutId p) eng))\<lparr>pending := None\<rparr>)"
  using bestmove_not_handshake[OF assms(1)] assms
  by (simp add: handleMessage_def)

lemma handleMessage_other:
  assumes "line \<noteq> ''uciok''" "line \<noteq> ''readyok''"
    and "\<not> startsWith line ''info ''" and "\<not> startsWith line ''bestmove''"
  shows "handleMessage eng line = eng"
  using assms by (simp add: handleMessage_def)

lemma handleMessage_step:
  assumes p: "pending eng = Some p"
    and p': "pending (handleMessage eng line) = Some p'"
  shows "p' = retain p (if startsWith line ''info '' then parseInfoLine line else None)"
proof -
  consider (u) "line = ''uciok''" | (r) "line = ''readyok''"
    | (i) "startsWith line ''info ''" | (b) "startsWith line ''bestmove''"
    | (o) "line \<noteq> ''uciok''" "line \<noteq> ''readyok''" "\<not> startsWith line ''info ''" "\<not> startsWith line ''bestmove''"
    by blast
  thus ?thesis
  proof cases
    case u
    have "\<not> startsWith line ''info ''" using u by (simp add: startsWith_def)
    thus ?thesis using p p' unfolding u handleMessage_uciok by (simp add: retain_def)
  next
    case r
    have "\<not> startsWith line ''info ''" using r by (simp add: startsWith_def)
    thus ?thesis using p p' unfolding r handleMessage_readyok by (simp add: retain_def)
  next
    case i
    show ?thesis using p' unfolding handleMessage_info[OF i p] by (simp add: i)
  next
    case b
    show ?thesis using p' unfolding handleMessage_bestmove[OF b p] by (simp add: Let_def)
  next
    case o
    show ?thesis using p p' unfolding handleMessage_other[OF o] by (simp add: o retain_def)
  qed
qed

lemma retain_fields:
  "promise (retain p x) = promise p" "multiPv (retain p x) = multiPv p"
  "timeoutId (retain p x) = timeoutId p"
  by (auto simp: retain_def split: option.splits prod.splits)

lemma retain_depth:
  assumes "results p k = Some e"
  shows "\<exists>e'. results (retain p x) k = Some e' \<and> depth e \<le> depth e'"
  using assms by (auto simp: retain_def split: option.splits prod.splits)

lemma retain_change:
  assumes "results (retain p x) k \<noteq> results p k"
  shows "\<exists>ev. x = Some (ev, k) \<and> results (retain p x) k = Some ev \<and>
              (\<forall>e. results p k = Some e \<longrightarrow> depth e \<le> depth ev)"
  using assms by (auto simp: retain_def split: option.splits prod.splits if_splits)

lemma retain_lower:
  assumes "results p k = Some e" and "depth ev < depth e"
  shows "retain p (Some (ev, k)) = p"
  using assms by (simp add: retain_def)

lemma handleMessage_idle:
  assumes "pending eng = None"
  shows "pending (handleMessage eng line) = None"
  using assms by (simp add: handleMessage_def)

lemma feed_idle:
  assumes "pending eng = None"
  shows "pending (foldl handleMessage eng ls) = None"
  using assms by (induction ls arbitrary: eng) (simp_all add: handleMessage_idle)

lemma handleMessage_seq:
  assumes "pending eng = Some p"
    and "pending (foldl handleMessage eng ls) = Some p'"
  shows "promise p' = promise p \<and>
         (\<forall>k e. results p k = Some e \<longrightarrow> (\<exists>e'. results p' k = Some e' \<and> depth e \<le> depth e')) \<and>
         (\<forall>k. results p' k \<noteq> results p k \<longrightarrow>
            (\<exists>l \<in> set ls. \<exists>ev. startsWith l ''info '' \<and> \<not> hasBound l \<and> parseInfoLine l = Some (ev, k) \<and>
                           results p' k = Some ev))"
  using assms
proof (induction ls arbitrary: eng p)
  case Nil thus ?case by simp
next
  case (Cons l ls)
  let ?e1 = "handleMessage eng l"
  let ?x = "if startsWith l ''info '' then parseInfoLine l else None"
  have fin: "pending (foldl handleMessage ?e1 ls) = Some p'" using Cons.prems(2) by simp
  obtain p1 where p1: "pending ?e1 = Some p1"
    using feed_idle[of ?e1 ls] fin by (cases "pending ?e1") auto
  have p1eq: "p1 = retain p ?x"
    using handleMessage_step[OF Cons.prems(1) p1] by simp
  note ih = Cons.IH[OF p1 fin]
  have a: "promise p' = promise p" using ih by (simp add: p1eq retain_fields)
  have b: "\<exists>e'. results p' k = Some e' \<and> depth e \<le> depth e'" if rk: "results p k = Some e" for k e
  proof -
    obtain e1 where e1: "results p1 k = Some e1" "depth e \<le> depth e1"
      using retain_depth[OF rk, of ?x] by (auto simp: p1eq)
    then obtain e' where "results p' k = Some e'" "depth e1 \<le> depth e'" using ih by blast
    thus ?thesis using e1 by auto
  qed
  have c: "\<exists>l' \<in> set (l # ls). \<exists>ev. startsWith l' ''info '' \<and> \<not> hasBound l' \<and>
              parseInfoLine l' = Some (ev, k) \<and> results p' k = Some ev"
    if neq: "results p' k \<noteq> results p k" for k
  proof (cases "results p' k = results p1 k")
    case False
    then obtain l' ev where "l' \<in> set ls" "startsWith l' ''info ''" "\<not> hasBound l'"
        "parseInfoLine l' = Some (ev, k)" "results p' k = Some ev"
      using ih by blast
    thus ?thesis by auto
  next
    case True
    hence "results (retain p ?x) k \<noteq> results p k" using neq by (simp add: p1eq)
    from retain_change[OF this] obtain ev where
      ev: "?x = Some (ev, k)" "results (retain p ?x) k = Some ev" by blast
    have i: "startsWith l ''info ''" using ev(1) by (auto split: if_splits)
    hence pl: "parseInfoLine l = Some (ev, k)" using ev(1) by simp
    have "\<not> hasBound l" using pl parseInfoLine_bound[of l] by auto
    moreover have "results p' k = Some ev" using True ev(2) by (simp add: p1eq)
    ultimately show ?thesis using i pl by auto
  qed
  show ?case using a b c by blast
qed

lemma length_assemble: "length (assemble rs n) = n"
  by (simp add: assemble_def)

lemma nth_assemble: "i < n \<Longrightarrow> assemble rs n ! i = lineOrDefault rs (Suc i)"
  unfolding assemble_def by (simp add: nth_map_upt del: upt_Suc)

lemma assemble_Suc: "assemble rs (Suc n) = lineOrDefault rs 1 # map (lineOrDefault rs) [2 ..< Suc (Suc n)]"
  unfolding assemble_def by (simp add: upt_conv_Cons numeral_2_eq_2 del: upt_Suc)

subsection \<open>The example states\<close>

lemmas parser_defs =
  parseInfoLine_def keywordNumber_def scoreNumber_def stripPrefix_def startsWith_def skipSpaces1_def
  takeDigits1_def takeInt1_def isDigit_def isSpace_def isWordChar_def hasBound_def boundWord_def
  wordEnd_def pvCapture_def isLineTerminator_def trim_def isLanMove_def parseNat_def parseInt_def
  digitValue_def

lemma engineReady_eq:
  "engineReady = \<lparr>worker = True, ready = True, pending = None, waiting = [], timers = Map.empty,
                   nextId = 0,
                   effects = [PostMessage ''uci'', PostMessage ''setoption name Hash value 32'',
                              PostMessage ''isready'']\<rparr>"
  by (simp add: engineReady_def handleMessage_def newEngine_def postMessage_def emit_def Let_def)

lemma showNat_examples: "showNat 1 = ''1''" "showNat (Suc 0) = ''1''" "showNat 18 = ''18''"
  by (simp_all add: showNat.simps digitChar_def)

lemma engineCalled_eq:
  "engineCalled = \<lparr>worker = True, ready = True, pending = None,
       waiting = [(0, fenWithBishop, exampleOptions)], timers = Map.empty, nextId = 1,
       effects = [PostMessage ''uci'', PostMessage ''setoption name Hash value 32'',
                  PostMessage ''isready'']\<rparr>"
  by (simp add: engineCalled_def engineReady_eq analyzePosition_def Let_def)

lemma enginePending_eq:
  "enginePending = \<lparr>worker = True, ready = True,
       pending = Some \<lparr>promise = 0, results = Map.empty, multiPv = 1, timeoutId = 1\<rparr>,
       waiting = [], timers = [1 \<mapsto> (0, 1)], nextId = 2,
       effects = [PostMessage ''uci'', PostMessage ''setoption name Hash value 32'',
                  PostMessage ''isready'', PostMessage ''stop'',
                  PostMessage ''setoption name MultiPV value 1'',
                  PostMessage (''position fen '' @ fenWithBishop),
                  PostMessage ''go depth 18'']\<rparr>"
  by (simp add: enginePending_def engineCalled_eq resume_def startAnalysis_def stop_def
      postMessage_def emit_def Let_def exampleOptions_def goCommand_def showNat_examples)

lemma engineSecondCall_eq:
  "engineSecondCall = enginePending\<lparr>nextId := 3, waiting := [(2, fenBishopG6, exampleOptions)]\<rparr>"
  by (simp add: engineSecondCall_def enginePending_eq analyzePosition_def Let_def)

lemma engineOrphan_eq:
  "engineOrphan = \<lparr>worker = False, ready = True,
       pending = Some \<lparr>promise = 0, results = Map.empty, multiPv = 1, timeoutId = 1\<rparr>,
       waiting = [], timers = [1 \<mapsto> (0, 1)], nextId = 2,
       effects = [PostMessage ''uci'', PostMessage ''setoption name Hash value 32'',
                  PostMessage ''isready'', PostMessage ''quit'']\<rparr>"
  by (simp add: engineOrphan_def engineCalled_eq quit_def resume_def startAnalysis_def stop_def
      postMessage_def emit_def Let_def exampleOptions_def)

lemma parse_lineDepth12: "parseInfoLine lineDepth12 = Some (evalDepth12, 1)"
  by (simp add: lineDepth12_def evalDepth12_def parser_defs Let_def)

lemma lineDepth12_info: "startsWith lineDepth12 ''info ''"
  by (simp add: lineDepth12_def startsWith_def)

lemma engineDepth12_eq:
  "engineDepth12 = enginePending\<lparr>pending :=
       Some \<lparr>promise = 0, results = [1 \<mapsto> evalDepth12], multiPv = 1, timeoutId = 1\<rparr>\<rparr>"
proof -
  have p: "pending enginePending = Some \<lparr>promise = 0, results = Map.empty, multiPv = 1, timeoutId = 1\<rparr>"
    by (simp add: enginePending_eq)
  show ?thesis
    unfolding engineDepth12_def handleMessage_info[OF lineDepth12_info p] parse_lineDepth12
    by (simp add: retain_def)
qed

lemma reachable_engineReady: "reachable engineReady"
  unfolding engineReady_def by (intro reachable.intros)

lemma reachable_engineCalled: "reachable engineCalled"
  unfolding engineCalled_def by (intro r_analyze reachable_engineReady)

lemma reachable_enginePending: "reachable enginePending"
  unfolding enginePending_def by (intro r_resume reachable_engineCalled)

lemma reachable_engineSecondCall: "reachable engineSecondCall"
  unfolding engineSecondCall_def by (intro r_analyze reachable_enginePending)

lemma reachable_engineDepth12: "reachable engineDepth12"
  unfolding engineDepth12_def by (intro r_message reachable_enginePending)

lemma reachable_engineOrphan: "reachable engineOrphan"
  unfolding engineOrphan_def by (intro r_resume r_quit reachable_engineCalled)

text \<open>
  Claim C4: while a request is pending in a reachable state, whatever lines arrive, the
  depth retained for a line index never decreases, and an entry that changed holds the
  evaluation parsed from one of the info lines received, one without bound word. A
  single info line of lower depth than the retained one, or with \<open>upperbound\<close> or
  \<open>lowerbound\<close> as a word, leaves the adapter as it is.
\<close>

theorem retained_depth_monotone:
  assumes "reachable eng" and "pending eng = Some p"
  shows "(\<forall>ls p'. pending (foldl handleMessage eng ls) = Some p' \<longrightarrow>
            promise p' = promise p \<and>
            (\<forall>k e. results p k = Some e \<longrightarrow> (\<exists>e'. results p' k = Some e' \<and> depth e \<le> depth e')) \<and>
            (\<forall>k. results p' k \<noteq> results p k \<longrightarrow>
               (\<exists>l \<in> set ls. \<exists>ev. startsWith l ''info '' \<and> \<not> hasBound l \<and>
                   parseInfoLine l = Some (ev, k) \<and> results p' k = Some ev))) \<and>
         (\<forall>line ev k e. startsWith line ''info '' \<and> parseInfoLine line = Some (ev, k) \<and>
              results p k = Some e \<and> depth ev < depth e \<longrightarrow> handleMessage eng line = eng) \<and>
         (\<forall>line. startsWith line ''info '' \<and> hasBound line \<longrightarrow> handleMessage eng line = eng) \<and>
         (\<forall>pre w post. (w = ''upperbound'' \<or> w = ''lowerbound'') \<and> wordEnd post \<longrightarrow>
              hasBound (pre @ CHR '' '' # w @ post))"
proof -
  have e: "eng\<lparr>pending := Some p\<rparr> = eng" using assms(2) by simp
  have a: "promise p' = promise p \<and>
            (\<forall>k e. results p k = Some e \<longrightarrow> (\<exists>e'. results p' k = Some e' \<and> depth e \<le> depth e')) \<and>
            (\<forall>k. results p' k \<noteq> results p k \<longrightarrow>
               (\<exists>l \<in> set ls. \<exists>ev. startsWith l ''info '' \<and> \<not> hasBound l \<and>
                   parseInfoLine l = Some (ev, k) \<and> results p' k = Some ev))"
    if "pending (foldl handleMessage eng ls) = Some p'" for ls p'
    by (rule handleMessage_seq[OF assms(2) that])
  have b: "handleMessage eng line = eng"
    if "startsWith line ''info ''" "parseInfoLine line = Some (ev, k)" "results p k = Some e"
       "depth ev < depth e" for line ev k e
    unfolding handleMessage_info[OF that(1) assms(2)] that(2) retain_lower[OF that(3,4)] by (rule e)
  have c: "handleMessage eng line = eng" if "startsWith line ''info ''" "hasBound line" for line
    unfolding handleMessage_info[OF that(1) assms(2)] parseInfoLine_bound[OF that(2)]
    by (simp add: retain_def e)
  have d: "hasBound (pre @ CHR '' '' # w @ post)"
    if "w = ''upperbound'' \<or> w = ''lowerbound''" "wordEnd post" for pre w post
    using that by (rule hasBound_token)
  show ?thesis using a b c d by blast
qed

lemma parse_lineDepth8: "\<exists>ev. parseInfoLine lineDepth8 = Some (ev, 1) \<and> depth ev = 8"
  by (simp add: lineDepth8_def parser_defs Let_def)

lemma lineBound_split:
  "lineBound = ''info depth 20 seldepth 27 multipv 1 score cp 120'' @ CHR '' '' # ''upperbound''
                 @ '' nodes 991200 nps 800100 pv e1e2''"
  by (simp add: lineBound_def)

theorem retained_depth_monotone_witness:
  "pending engineDepth12 = Some pendingDepth12 \<and>
   handleMessage engineDepth12 lineDepth8 = engineDepth12 \<and>
   hasBound lineBound \<and>
   handleMessage engineDepth12 lineBound = engineDepth12"
proof -
  have p: "pending engineDepth12 = Some pendingDepth12"
    by (simp add: engineDepth12_eq pendingDepth12_def)
  note t = retained_depth_monotone[OF reachable_engineDepth12 p]
  obtain ev where ev: "parseInfoLine lineDepth8 = Some (ev, 1)" "depth ev = 8"
    using parse_lineDepth8 by blast
  have i8: "startsWith lineDepth8 ''info ''" by (simp add: lineDepth8_def startsWith_def)
  have r: "results pendingDepth12 1 = Some evalDepth12" "depth ev < depth evalDepth12"
    using ev(2) by (simp_all add: pendingDepth12_def evalDepth12_def)
  have low: "handleMessage engineDepth12 lineDepth8 = engineDepth12"
    using t i8 ev(1) r by blast
  have ib: "startsWith lineBound ''info ''" by (simp add: lineBound_def startsWith_def)
  have we: "wordEnd '' nodes 991200 nps 800100 pv e1e2''" by (simp add: wordEnd_def isWordChar_def)
  have hb: "hasBound lineBound"
    unfolding lineBound_split using t we by blast
  have bd: "handleMessage engineDepth12 lineBound = engineDepth12"
    using t ib hb by blast
  show ?thesis using p low hb bd by simp
qed

text \<open>
  Claim C5, as the code has it. A call of \<open>analyzePosition\<close> on an adapter with a worker
  only suspends the caller. When the first suspended call resumes in a reachable state
  where a request is pending and the worker is in place, the adapter posts \<open>stop\<close>, then
  rejects the pending promise with \<open>Cancelled\<close> and disarms its timer, then installs the
  new request and posts its three commands; any \<open>bestmove\<close> line that follows resolves
  the new promise with one evaluation per requested line.
\<close>

theorem analyzePosition_supersedes:
  assumes "reachable eng" and "worker eng" and "pending eng = Some p"
    and "waiting eng = (caller, fen, options) # rest"
    and "n = (case optMultiPv options of Some v \<Rightarrow> v | None \<Rightarrow> 1)"
    and "d = (case optDepth options of Some v \<Rightarrow> v | None \<Rightarrow> 18)"
  shows "caller \<noteq> promise p \<and>
         effects (resume eng) = effects eng @
           [PostMessage ''stop'', Reject (promise p) Cancelled,
            PostMessage (''setoption name MultiPV value '' @ showNat n),
            PostMessage (''position fen '' @ fen),
            PostMessage (goCommand (optMoveTimeMs options) d)] \<and>
         timers (resume eng) (timeoutId p) = None \<and>
         waiting (resume eng) = rest \<and>
         (\<exists>t. pending (resume eng)
                 = Some \<lparr>promise = caller, results = Map.empty, multiPv = n, timeoutId = t\<rparr>
              \<and> timers (resume eng) t = Some (caller, n)) \<and>
         (\<forall>line. startsWith line ''bestmove'' \<longrightarrow>
            (\<exists>rs. effects (handleMessage (resume eng) line) = effects (resume eng) @ [Resolve caller rs] \<and>
                  length rs = n \<and> pending (handleMessage (resume eng) line) = None)) \<and>
         (\<forall>fen' options'. analyzePosition eng fen' options'
            = (nextId eng, eng\<lparr>nextId := Suc (nextId eng),
                               waiting := waiting eng @ [(nextId eng, fen', options')]\<rparr>))"
proof -
  note rp = reachable_pending[OF assms(1,3)]
  let ?e1 = "eng\<lparr>waiting := rest\<rparr>"
  have r1: "ready ?e1" using rp(1) by simp
  have e': "resume eng = startAnalysis ?e1 (caller, fen, options)"
    using assms(4) rp(1) by (simp add: resume_def)
  let ?t = "nextId eng"
  let ?pn = "\<lparr>promise = caller, results = Map.empty, multiPv = n, timeoutId = ?t\<rparr>"
  have pend: "pending (resume eng) = Some ?pn"
    unfolding e' startAnalysis_ready[OF r1] using assms(3,5)
    by (simp add: Let_def stop_def)
  have tmr: "timers (resume eng) = [?t \<mapsto> (caller, n)]"
    unfolding e' startAnalysis_ready[OF r1] using assms(3,5) rp(4)
    by (simp add: Let_def stop_def)
  have eff: "effects (resume eng) = effects eng @
           [PostMessage ''stop'', Reject (promise p) Cancelled,
            PostMessage (''setoption name MultiPV value '' @ showNat n),
            PostMessage (''position fen '' @ fen),
            PostMessage (goCommand (optMoveTimeMs options) d)]"
    unfolding e' startAnalysis_ready[OF r1] using assms(2,3,5,6)
    by (simp add: Let_def stop_def)
  have wt: "waiting (resume eng) = rest"
    unfolding e' startAnalysis_ready[OF r1] using assms(3)
    by (simp add: Let_def stop_def)
  have fresh: "caller \<noteq> promise p" using rp(5) assms(4) by force
  have old: "timers (resume eng) (timeoutId p) = None" using tmr rp(3) by simp
  have res: "\<exists>rs. effects (handleMessage (resume eng) line) = effects (resume eng) @ [Resolve caller rs] \<and>
                  length rs = n \<and> pending (handleMessage (resume eng) line) = None"
    if b: "startsWith line ''bestmove''" for line
    unfolding handleMessage_bestmove[OF b pend] by (simp add: Let_def)
  have call: "analyzePosition eng fen' options'
            = (nextId eng, eng\<lparr>nextId := Suc (nextId eng),
                               waiting := waiting eng @ [(nextId eng, fen', options')]\<rparr>)"
    for fen' options'
    using assms(2) by (simp add: analyzePosition_def Let_def)
  show ?thesis using fresh eff old wt pend tmr res call by auto
qed

theorem analyzePosition_supersedes_witness:
  "pending enginePending = Some \<lparr>promise = 0, results = Map.empty, multiPv = 1, timeoutId = 1\<rparr> \<and>
   analyzePosition enginePending fenBishopG6 exampleOptions = (2, engineSecondCall) \<and>
   effects engineSecondCall = effects enginePending \<and>
   effects (resume engineSecondCall)
     = effects enginePending @
         [PostMessage ''stop'', Reject 0 Cancelled,
          PostMessage ''setoption name MultiPV value 1'',
          PostMessage (''position fen '' @ fenBishopG6),
          PostMessage ''go depth 18'']"
proof -
  have p: "pending enginePending = Some \<lparr>promise = 0, results = Map.empty, multiPv = 1, timeoutId = 1\<rparr>"
    by (simp add: enginePending_eq)
  have p2: "pending engineSecondCall = Some \<lparr>promise = 0, results = Map.empty, multiPv = 1, timeoutId = 1\<rparr>"
    and w2: "worker engineSecondCall"
    and q2: "waiting engineSecondCall = (2, fenBishopG6, exampleOptions) # []"
    and e2: "effects engineSecondCall = effects enginePending"
    by (simp_all add: engineSecondCall_eq enginePending_eq)
  have call: "analyzePosition enginePending fenBishopG6 exampleOptions = (2, engineSecondCall)"
    by (simp add: engineSecondCall_eq enginePending_eq analyzePosition_def Let_def)
  have n: "(1::nat) = (case optMultiPv exampleOptions of Some v \<Rightarrow> v | None \<Rightarrow> 1)"
    and d: "(18::nat) = (case optDepth exampleOptions of Some v \<Rightarrow> v | None \<Rightarrow> 18)"
    by (simp_all add: exampleOptions_def)
  have g: "goCommand (optMoveTimeMs exampleOptions) 18 = ''go depth 18''"
    by (simp add: goCommand_def exampleOptions_def showNat_examples)
  show ?thesis
    using p call e2 g analyzePosition_supersedes[OF reachable_engineSecondCall w2 p2 q2 n d]
    by (simp add: showNat_examples)
qed

text \<open>
  The claim as stated fails in \<open>engineOrphan\<close>, where a request is pending and the worker
  is gone: a call there is rejected with \<open>Unavailable\<close>, nothing is posted, and the
  pending request is neither cancelled nor replaced.
\<close>

theorem analyzePosition_supersedes_counterexample:
  "reachable engineOrphan \<and>
   pending engineOrphan = Some \<lparr>promise = 0, results = Map.empty, multiPv = 1, timeoutId = 1\<rparr> \<and>
   fst (analyzePosition engineOrphan fenBishopG6 exampleOptions) = 2 \<and>
   effects (snd (analyzePosition engineOrphan fenBishopG6 exampleOptions))
     = effects engineOrphan @ [Reject 2 Unavailable] \<and>
   pending (snd (analyzePosition engineOrphan fenBishopG6 exampleOptions)) = pending engineOrphan \<and>
   waiting (snd (analyzePosition engineOrphan fenBishopG6 exampleOptions)) = []"
  using reachable_engineOrphan
  by (simp add: engineOrphan_eq analyzePosition_def Let_def emit_def)

text \<open>
  Claim C6, as the code has it. When the timer of a request fires in a reachable state,
  that request is the pending one; the adapter posts \<open>stop\<close> if it has a worker, clears
  the request, and resolves the promise with the retained evaluations of lines 1 to n
  (depth 0 without score where a line is missing) if there is a line 1 and it has a
  centipawn or mate score, and rejects it with \<open>Timeout\<close> otherwise.
\<close>

theorem timeout_outcome:
  assumes "reachable eng" and "timers eng t = Some (caller, n)"
  shows "\<exists>p. pending eng = Some p \<and> promise p = caller \<and> multiPv p = n \<and> timeoutId p = t \<and>
           pending (onTimeout t eng) = None \<and> timers (onTimeout t eng) = Map.empty \<and>
           length (assemble (results p) n) = n \<and>
           (\<forall>i<n. assemble (results p) n ! i
                     = (case results p (Suc i) of Some ev \<Rightarrow> ev | None \<Rightarrow> noEvaluation)) \<and>
           cp noEvaluation = None \<and> mate noEvaluation = None \<and> depth noEvaluation = 0 \<and>
           effects (onTimeout t eng)
             = effects eng @ (if worker eng then [PostMessage ''stop''] else []) @
                 [if 1 \<le> n \<and> hasScore (lineOrDefault (results p) 1)
                  then Resolve caller (assemble (results p) n)
                  else Reject caller TimedOut]"
proof -
  obtain p where p: "pending eng = Some p" "promise p = caller" "multiPv p = n" "timeoutId p = t"
    using reachable_timer[OF assms(1,2)] by blast
  have tm: "timers eng = [t \<mapsto> (caller, n)]"
    using reachable_pending(4)[OF assms(1) p(1)] p by simp
  have eff: "effects (onTimeout t eng)
             = effects eng @ (if worker eng then [PostMessage ''stop''] else []) @
                 [if 1 \<le> n \<and> hasScore (lineOrDefault (results p) 1)
                  then Resolve caller (assemble (results p) n)
                  else Reject caller TimedOut]"
  proof (cases n)
    case 0
    hence "assemble (results p) n = []" by (simp add: assemble_def)
    thus ?thesis using assms(2) p(1) 0
      by (simp add: onTimeout_def Let_def stop_def)
  next
    case (Suc n')
    have asm: "assemble (results p) n
               = lineOrDefault (results p) 1 # map (lineOrDefault (results p)) [2 ..< Suc (Suc n')]"
      unfolding Suc by (rule assemble_Suc)
    have one: "1 \<le> n" using Suc by simp
    show ?thesis
      using assms(2) p(1) one
      by (simp add: onTimeout_def Let_def stop_def asm[symmetric] split: list.splits)
         (simp add: asm)
  qed
  have pen: "pending (onTimeout t eng) = None"
    using assms(2) p(1) by (simp add: onTimeout_def Let_def stop_def split: list.splits)
  have tmr: "timers (onTimeout t eng) = Map.empty"
    using assms(2) p(1) tm by (simp add: onTimeout_def Let_def stop_def split: list.splits)
  have nth: "\<forall>i<n. assemble (results p) n ! i
                     = (case results p (Suc i) of Some ev \<Rightarrow> ev | None \<Rightarrow> noEvaluation)"
    by (simp add: nth_assemble lineOrDefault_def)
  show ?thesis
    using p eff pen tmr nth by (simp add: length_assemble noEvaluation_def)
qed

theorem timeout_outcome_witness:
  "timers engineDepth12 1 = Some (0, 1) \<and>
   effects (onTimeout 1 engineDepth12)
     = effects engineDepth12 @ [PostMessage ''stop'', Resolve 0 [evalDepth12]] \<and>
   timers enginePending 1 = Some (0, 1) \<and>
   effects (onTimeout 1 enginePending)
     = effects enginePending @ [PostMessage ''stop'', Reject 0 TimedOut]"
proof -
  have t12: "timers engineDepth12 1 = Some (0, 1)" by (simp add: engineDepth12_eq enginePending_eq)
  have w12: "worker engineDepth12" by (simp add: engineDepth12_eq enginePending_eq)
  have p12: "pending engineDepth12 = Some pendingDepth12"
    by (simp add: engineDepth12_eq pendingDepth12_def)
  have a12: "assemble (results pendingDepth12) 1 = [evalDepth12]"
    "hasScore (lineOrDefault (results pendingDepth12) 1)"
    by (simp_all add: assemble_def lineOrDefault_def pendingDepth12_def hasScore_def evalDepth12_def)
  have r12: "effects (onTimeout 1 engineDepth12)
     = effects engineDepth12 @ [PostMessage ''stop'', Resolve 0 [evalDepth12]]"
    using timeout_outcome[OF reachable_engineDepth12 t12] p12 a12 w12 by auto
  have t0: "timers enginePending 1 = Some (0, 1)" by (simp add: enginePending_eq)
  have w0: "worker enginePending" by (simp add: enginePending_eq)
  have p0: "pending enginePending = Some \<lparr>promise = 0, results = Map.empty, multiPv = 1, timeoutId = 1\<rparr>"
    by (simp add: enginePending_eq)
  have a0: "\<not> hasScore (lineOrDefault (results \<lparr>promise = 0, results = Map.empty, multiPv = 1, timeoutId = 1\<rparr>) 1)"
    by (simp add: lineOrDefault_def hasScore_def noEvaluation_def)
  have r0: "effects (onTimeout 1 enginePending)
     = effects enginePending @ [PostMessage ''stop'', Reject 0 TimedOut]"
    using timeout_outcome[OF reachable_enginePending t0] p0 a0 w0 by auto
  show ?thesis using t12 r12 t0 r0 by simp
qed

text \<open>
  The claim as stated fails in \<open>engineOrphan\<close>: the timer of the pending request fires,
  the promise is rejected with \<open>Timeout\<close>, and no \<open>stop\<close> is posted, there being no
  worker to post it to.
\<close>

theorem timeout_outcome_counterexample:
  "reachable engineOrphan \<and>
   \<not> worker engineOrphan \<and>
   timers engineOrphan 1 = Some (0, 1) \<and>
   effects (onTimeout 1 engineOrphan) = effects engineOrphan @ [Reject 0 TimedOut] \<and>
   PostMessage ''stop'' \<notin> set (effects (onTimeout 1 engineOrphan))"
  using reachable_engineOrphan
  by (simp add: engineOrphan_eq onTimeout_def stop_def postMessage_def emit_def Let_def
      assemble_def lineOrDefault_def hasScore_def noEvaluation_def)

end
